theory Spec2Isabelle
  imports Complex_Main "HOL-Library.Word" "HOL-Library.Log_Nat"
begin

section \<open>JavaScript strings\<close>

text \<open>
  A JavaScript string is a sequence of 16-bit code units; \<open>length\<close>, \<open>slice\<close>,
  \<open>substring\<close> and \<open>startsWith\<close> count and compare code units.  String literals of
  the source that are plain ASCII are written \<open>ascii ''...''\<close>; the few others are
  written as code unit lists.
\<close>

type_synonym jschar = "16 word"
type_synonym jsstring = "jschar list"

definition ascii :: "string \<Rightarrow> jsstring" where
  "ascii s = map of_char s"

text \<open>\<open>String(n)\<close> and template interpolation of an integer: decimal digits, most
  significant first, with a minus sign for a negative integer.\<close>

fun decimal :: "nat \<Rightarrow> jsstring" where
  "decimal n = (if n < 10 then [of_nat (48 + n)] else decimal (n div 10) @ [of_nat (48 + n mod 10)])"

declare decimal.simps [simp del]

definition number_to_string :: "int \<Rightarrow> jsstring" where
  "number_to_string i = (if i < 0 then ascii ''-'' @ decimal (nat (- i)) else decimal (nat i))"

text \<open>The code units that \<open>String.prototype.trim\<close> removes: the WhiteSpace and
  LineTerminator productions of the language.\<close>

definition isWhiteSpace :: "jschar \<Rightarrow> bool" where
  "isWhiteSpace c =
    (c = 0x09 \<or> c = 0x0A \<or> c = 0x0B \<or> c = 0x0C \<or> c = 0x0D \<or> c = 0x20 \<or> c = 0xA0
     \<or> c = 0x1680 \<or> (0x2000 \<le> c \<and> c \<le> 0x200A) \<or> c = 0x2028 \<or> c = 0x2029
     \<or> c = 0x202F \<or> c = 0x205F \<or> c = 0x3000 \<or> c = 0xFEFF)"

definition trimStart :: "jsstring \<Rightarrow> jsstring" where
  "trimStart s = dropWhile isWhiteSpace s"

definition trimEnd :: "jsstring \<Rightarrow> jsstring" where
  "trimEnd s = rev (dropWhile isWhiteSpace (rev s))"

definition trim :: "jsstring \<Rightarrow> jsstring" where
  "trim s = trimEnd (trimStart s)"

definition startsWith :: "jsstring \<Rightarrow> jsstring \<Rightarrow> bool" where
  "startsWith s p = (take (length p) s = p)"

definition endsWith :: "jsstring \<Rightarrow> jsstring \<Rightarrow> bool" where
  "endsWith s p = (length p \<le> length s \<and> drop (length s - length p) s = p)"

text \<open>\<open>s.split(sep)\<close> for a separator of one code unit: the pieces between the
  separators, empty pieces included; the empty string gives one empty piece.\<close>

fun split :: "jschar \<Rightarrow> jsstring \<Rightarrow> jsstring list" where
  "split sep [] = [[]]"
| "split sep (c # cs) =
    (if c = sep then [] # split sep cs
     else (c # hd (split sep cs)) # tl (split sep cs))"

text \<open>\<open>xs.join(sep)\<close>.\<close>

fun join :: "jsstring \<Rightarrow> jsstring list \<Rightarrow> jsstring" where
  "join sep [] = []"
| "join sep [x] = x"
| "join sep (x # y # ys) = x @ sep @ join sep (y # ys)"

section \<open>JavaScript numbers\<close>

text \<open>
  A JavaScript number other than NaN: a finite double, which is a rational number,
  or one of the two infinities.  The two zeros are not told apart (the program
  never observes the sign of a zero).  An absent number result \<open>None\<close> stands for
  NaN.
\<close>

datatype js_number = Finite rat | PosInfinity | NegInfinity

fun negate :: "js_number \<Rightarrow> js_number" where
  "negate (Finite q) = Finite (- q)"
| "negate PosInfinity = NegInfinity"
| "negate NegInfinity = PosInfinity"

text \<open>The integer \<open>e\<close> with \<open>2^e \<le> q < 2^(e+1)\<close>, for a positive rational \<open>q\<close>: the
  difference of the bit lengths of numerator and denominator, or one less.\<close>

definition floor_log2 :: "rat \<Rightarrow> int" where
  "floor_log2 q =
    (let (a, b) = quotient_of q;
         e0 = bitlen a - bitlen b
     in if 2 powi e0 \<le> q then e0 else e0 - 1)"

definition round_half_even :: "rat \<Rightarrow> int" where
  "round_half_even x =
    (let f = \<lfloor>x\<rfloor>; d = x - of_int f
     in if d < 1 / 2 then f
        else if 1 / 2 < d then f + 1
        else if even f then f else f + 1)"

text \<open>
  The double nearest to a rational (round to nearest, ties to even): 53
  significant bits, the least binary exponent -1022 (below it the spacing stays
  2^-1074), and infinity from 2^1024 on.
\<close>

definition round_to_double :: "rat \<Rightarrow> js_number" where
  "round_to_double x =
    (if x = 0 then Finite 0
     else let e = max (floor_log2 \<bar>x\<bar>) (- 1022);
              ulp = 2 powi (e - 52);
              r = of_int (round_half_even (\<bar>x\<bar> / ulp)) * ulp
          in if 2 ^ 1024 \<le> r then (if x < 0 then NegInfinity else PosInfinity)
             else Finite (if x < 0 then - r else r))"

definition isDigit :: "jschar \<Rightarrow> bool" where
  "isDigit c = (0x30 \<le> c \<and> c \<le> 0x39)"

definition digits_value :: "jsstring \<Rightarrow> int" where
  "digits_value ds = foldl (\<lambda>a c. 10 * a + (uint c - 48)) 0 ds"

text \<open>The value of a digit in a radix up to 16 (letters in either case), and of a
  run of such digits; \<open>None\<close> when the run is empty or holds another code unit.\<close>

definition digit_in :: "int \<Rightarrow> jschar \<Rightarrow> int option" where
  "digit_in radix c =
    (let v = (if 0x30 \<le> c \<and> c \<le> 0x39 then uint c - 0x30
              else if 0x61 \<le> c \<and> c \<le> 0x66 then uint c - 0x61 + 10
              else if 0x41 \<le> c \<and> c \<le> 0x46 then uint c - 0x41 + 10
              else 16)
     in if v < radix then Some v else None)"

fun radix_value :: "int \<Rightarrow> int \<Rightarrow> jsstring \<Rightarrow> int option" where
  "radix_value radix acc [] = Some acc"
| "radix_value radix acc (c # cs) =
    (case digit_in radix c of
       None \<Rightarrow> None
     | Some v \<Rightarrow> radix_value radix (radix * acc + v) cs)"

definition radix_literal :: "int \<Rightarrow> jsstring \<Rightarrow> js_number option" where
  "radix_literal radix ds =
    (if ds = [] then None
     else map_option (\<lambda>v. round_to_double (of_int v)) (radix_value radix 0 ds))"

text \<open>ExponentPart, or nothing: the exponent, \<open>None\<close> when the text is neither.\<close>

definition exponent_part :: "jsstring \<Rightarrow> int option" where
  "exponent_part r =
    (if r = [] then Some 0
     else if hd r = 0x65 \<or> hd r = 0x45 then
       (let t = tl r;
            signed = (t \<noteq> [] \<and> (hd t = 0x2B \<or> hd t = 0x2D));
            ds = (if signed then tl t else t)
        in if ds \<noteq> [] \<and> list_all isDigit ds then
             Some (if signed \<and> hd t = 0x2D then - digits_value ds else digits_value ds)
           else None)
     else None)"

text \<open>
  StrUnsignedDecimalLiteral: \<open>Infinity\<close>, or digits with an optional fraction and
  an optional exponent, or a dot with digits and an optional exponent.  The
  mathematical value is rounded to a double.
\<close>

definition unsigned_decimal :: "jsstring \<Rightarrow> js_number option" where
  "unsigned_decimal s =
    (if s = ascii ''Infinity'' then Some PosInfinity
     else let ip = takeWhile isDigit s;
              r1 = dropWhile isDigit s;
              dot = (r1 \<noteq> [] \<and> hd r1 = 0x2E);
              fp = (if dot then takeWhile isDigit (tl r1) else []);
              r2 = (if dot then dropWhile isDigit (tl r1) else r1)
          in if ip = [] \<and> fp = [] then None
             else (case exponent_part r2 of
                     None \<Rightarrow> None
                   | Some ex \<Rightarrow>
                       Some (round_to_double
                         ((of_int (digits_value ip) + of_int (digits_value fp) / 10 ^ length fp)
                          * 10 powi ex))))"

text \<open>
  \<open>Number(s)\<close> for a string (StringToNumber): white space and line terminators
  around the text are skipped; the empty text is 0; \<open>0x\<close>, \<open>0o\<close> and \<open>0b\<close> (in either
  case) start an unsigned integer in radix 16, 8 and 2; otherwise the text is a
  decimal literal with an optional sign.  Any other text is NaN.
\<close>

definition Number :: "jsstring \<Rightarrow> js_number option" where
  "Number s =
    (let t = trim s in
     if t = [] then Some (Finite 0)
     else if startsWith t (ascii ''0x'') \<or> startsWith t (ascii ''0X'') then radix_literal 16 (drop 2 t)
     else if startsWith t (ascii ''0o'') \<or> startsWith t (ascii ''0O'') then radix_literal 8 (drop 2 t)
     else if startsWith t (ascii ''0b'') \<or> startsWith t (ascii ''0B'') then radix_literal 2 (drop 2 t)
     else if hd t = 0x2B then unsigned_decimal (tl t)
     else if hd t = 0x2D then map_option negate (unsigned_decimal (tl t))
     else unsigned_decimal t)"

section \<open>The bounded cache\<close>

text \<open>
  A JavaScript \<open>Map\<close> keeps its entries in insertion order, one entry per key:
  an association list.  \<open>set\<close> on a key that is present replaces the value in
  place; on a new key it appends.  \<open>delete\<close> removes the key's entry.
\<close>

type_synonym ('k, 'v) js_map = "('k \<times> 'v) list"

definition map_get :: "('k, 'v) js_map \<Rightarrow> 'k \<Rightarrow> 'v option" where
  "map_get m k = map_of m k"

definition map_has :: "('k, 'v) js_map \<Rightarrow> 'k \<Rightarrow> bool" where
  "map_has m k = (map_of m k \<noteq> None)"

definition map_delete :: "'k \<Rightarrow> ('k, 'v) js_map \<Rightarrow> ('k, 'v) js_map" where
  "map_delete k m = filter (\<lambda>e. fst e \<noteq> k) m"

definition map_set :: "'k \<Rightarrow> 'v \<Rightarrow> ('k, 'v) js_map \<Rightarrow> ('k, 'v) js_map" where
  "map_set k v m =
    (if map_has m k then map (\<lambda>e. if fst e = k then (k, v) else e) m else m @ [(k, v)])"

definition map_size :: "('k, 'v) js_map \<Rightarrow> nat" where
  "map_size m = length m"

text \<open>\<open>class LruCache\<close>: the private fields \<open>map\<close> and \<open>max\<close>.\<close>

record ('k, 'v) LruCache =
  map_lru :: "('k, 'v) js_map"
  max_lru :: nat

definition new_LruCache :: "nat \<Rightarrow> ('k, 'v) LruCache" where
  "new_LruCache mx = \<lparr>map_lru = [], max_lru = mx\<rparr>"

text \<open>\<open>get(key)\<close>: the value (\<open>None\<close> for undefined) and the cache afterwards; a hit
  deletes the entry and sets it again, which moves it to the end of the map.\<close>

definition lru_get :: "('k, 'v) LruCache \<Rightarrow> 'k \<Rightarrow> 'v option \<times> ('k, 'v) LruCache" where
  "lru_get c k =
    (case map_get (map_lru c) k of
       None \<Rightarrow> (None, c)
     | Some v \<Rightarrow> (Some v, c\<lparr>map_lru := map_set k v (map_delete k (map_lru c))\<rparr>))"

text \<open>The loop of \<open>set\<close>: while the map is larger than \<open>max\<close>, delete the first key
  of the iteration order.  The map is not empty when the loop body runs, since its
  size exceeds a natural number.\<close>

function evict :: "nat \<Rightarrow> ('k, 'v) js_map \<Rightarrow> ('k, 'v) js_map" where
  "evict mx m = (if map_size m > mx then evict mx (map_delete (fst (hd m)) m) else m)"
  by pat_completeness auto
termination
proof (relation "measure (\<lambda>(mx, m). length m)")
  show "wf (measure (\<lambda>(mx, m). length m))" by simp
next
  fix mx :: nat and m :: "('k, 'v) js_map"
  assume "mx < map_size m"
  then have "m \<noteq> []" by (auto simp: map_size_def)
  then have "hd m \<in> set m" by simp
  then have "length (filter (\<lambda>e. fst e \<noteq> fst (hd m)) m) < length m"
    by (intro length_filter_less [where x = "hd m"]) auto
  then show "((mx, map_delete (fst (hd m)) m), (mx, m)) \<in> measure (\<lambda>(mx, m). length m)"
    by (simp add: map_delete_def)
qed

declare evict.simps [simp del]

definition lru_set :: "('k, 'v) LruCache \<Rightarrow> 'k \<Rightarrow> 'v \<Rightarrow> ('k, 'v) LruCache" where
  "lru_set c k v =
    (let m1 = (if map_has (map_lru c) k then map_delete k (map_lru c) else map_lru c);
         m2 = map_set k v m1
     in c\<lparr>map_lru := evict (max_lru c) m2\<rparr>)"

definition lru_clear :: "('k, 'v) LruCache \<Rightarrow> ('k, 'v) LruCache" where
  "lru_clear c = c\<lparr>map_lru := []\<rparr>"

text \<open>Sequences of cache operations, and how long ago a key was last accessed:
  \<open>since_access ops k\<close> is the number of operations after the last \<open>get\<close> or \<open>set\<close>
  of \<open>k\<close> in \<open>ops\<close> (the length of \<open>ops\<close> when there is none).\<close>

datatype ('k, 'v) cache_op = Get 'k | Set 'k 'v

fun op_key :: "('k, 'v) cache_op \<Rightarrow> 'k" where
  "op_key (Get k) = k"
| "op_key (Set k v) = k"

fun apply_op :: "('k, 'v) LruCache \<Rightarrow> ('k, 'v) cache_op \<Rightarrow> ('k, 'v) LruCache" where
  "apply_op c (Get k) = snd (lru_get c k)"
| "apply_op c (Set k v) = lru_set c k v"

definition run_ops :: "('k, 'v) LruCache \<Rightarrow> ('k, 'v) cache_op list \<Rightarrow> ('k, 'v) LruCache" where
  "run_ops c ops = foldl apply_op c ops"

fun age :: "'k \<Rightarrow> 'k list \<Rightarrow> nat" where
  "age k [] = 0"
| "age k (x # xs) = (if x = k then 0 else Suc (age k xs))"

definition since_access :: "('k, 'v) cache_op list \<Rightarrow> 'k \<Rightarrow> nat" where
  "since_access ops k = age k (rev (map op_key ops))"

section \<open>Attribution records\<close>

text \<open>\<open>type BlameInfo\<close>: the optional fields are \<open>None\<close> when the property is
  undefined.  \<open>authorTime\<close> holds unix seconds, a number that is not NaN.\<close>

record BlameInfo =
  commit :: jsstring
  author :: "jsstring option"
  authorTime :: "js_number option"
  summary :: "jsstring option"

text \<open>\<open>shortHash(full)\<close>.\<close>

definition shortHash :: "jsstring \<Rightarrow> jsstring" where
  "shortHash full = take 7 full"

section \<open>Relative time phrasing\<close>

text \<open>\<open>`${n} unit${n > 1 ? "s" : ""} ago`\<close>, the template shared by every bucket of
  \<open>relativeFromUnixSeconds\<close>.\<close>

definition ago :: "int \<Rightarrow> string \<Rightarrow> jsstring" where
  "ago n unit = number_to_string n @ ascii '' '' @ ascii unit @ (if n > 1 then ascii ''s'' else []) @ ascii '' ago''"

text \<open>
  \<open>relativeFromUnixSeconds(sec, nowMs)\<close> for a finite \<open>sec\<close> and an integer \<open>nowMs\<close>
  (the value of \<open>Date.now()\<close>).  The arithmetic is exact; on integers \<open>Math.floor\<close>
  of a quotient is \<open>div\<close>, which rounds towards minus infinity.  Counts are
  printed in decimal, as JavaScript does below 10^21.
\<close>

definition relativeFromUnixSeconds :: "rat \<Rightarrow> int \<Rightarrow> jsstring" where
  "relativeFromUnixSeconds sec nowMs =
    (let diffSec = max 0 \<lfloor>(of_int nowMs - sec * 1000) / 1000\<rfloor> in
     if diffSec < 10 then ascii ''just now''
     else if diffSec < 60 then ago diffSec ''sec''
     else let mins = diffSec div 60 in
     if mins < 60 then ago mins ''min''
     else let hours = mins div 60 in
     if hours < 24 then ago hours ''hour''
     else let days = hours div 24 in
     if days < 30 then ago days ''day''
     else let months = days div 30 in
     if months < 12 then ago months ''month''
     else let years = days div 365 in
     ago years ''year'')"

text \<open>
  \<open>relativeFromUnixSeconds\<close> at any number.  At plus infinity the difference is
  minus infinity, so \<open>diffSec\<close> is 0.  At minus infinity \<open>diffSec\<close> and every count
  derived from it is infinity, no bucket test holds, and the year count prints as
  \<open>Infinity\<close>.
\<close>

fun relativeFromNumber :: "js_number \<Rightarrow> int \<Rightarrow> jsstring" where
  "relativeFromNumber (Finite sec) nowMs = relativeFromUnixSeconds sec nowMs"
| "relativeFromNumber PosInfinity nowMs = ascii ''just now''"
| "relativeFromNumber NegInfinity nowMs = ascii ''Infinity years ago''"

section \<open>Blame parser\<close>

text \<open>The body of the loop of \<open>parseBlamePorcelain\<close>, for one line.\<close>

definition parse_line :: "BlameInfo \<Rightarrow> jsstring \<Rightarrow> BlameInfo" where
  "parse_line info line =
    (if startsWith line (ascii ''author '') then
       info\<lparr>author := Some (trim (drop (length (ascii ''author '')) line))\<rparr>
     else if startsWith line (ascii ''author-time '') then
       (case Number (trim (drop (length (ascii ''author-time '')) line)) of
          None \<Rightarrow> info
        | Some n \<Rightarrow> info\<lparr>authorTime := Some n\<rparr>)
     else if startsWith line (ascii ''summary '') then
       info\<lparr>summary := Some (trim (drop (length (ascii ''summary '')) line))\<rparr>
     else info)"

text \<open>\<open>parseBlamePorcelain(porcelain)\<close>; \<open>None\<close> is the source's \<open>null\<close>.  The loop
  runs over every line, the first one included.\<close>

definition parseBlamePorcelain :: "jsstring \<Rightarrow> BlameInfo option" where
  "parseBlamePorcelain porcelain =
    (let lines = split 0x0A porcelain in
     case lines of
       [] \<Rightarrow> None
     | l0 # _ \<Rightarrow>
        (let first = trim l0 in
         if first = [] then None
         else (case split 0x20 first of
                 [] \<Rightarrow> None
               | commit' # _ \<Rightarrow>
                   if commit' = [] then None
                   else Some (foldl parse_line
                           \<lparr>commit = commit', author = None, authorTime = None, summary = None\<rparr>
                           lines))))"

section \<open>Label formatter\<close>

text \<open>The local constant \<open>message\<close> of \<open>formatBlameLabel\<close>: \<open>maxLen\<close> is 60, the
  slice is \<open>substring(0, 80)\<close>, and the marker appended is the single code unit
  U+2026 (horizontal ellipsis).\<close>

definition maxLen :: nat where
  "maxLen = 60"

definition ellipsis :: jsstring where
  "ellipsis = [0x2026]"

definition message :: "jsstring \<Rightarrow> jsstring" where
  "message summary' = (if length summary' > maxLen then take 80 summary' @ ellipsis else summary')"

text \<open>\<open>formatBlameLabel(info)\<close> with the current time \<open>Date.now()\<close> passed as
  \<open>nowMs\<close>.  The destructuring defaults apply to undefined fields.  The label is
  U+2387, space, author, comma, space, when, space, U+00B7, space, message, space,
  U+2197.\<close>

definition formatBlameLabel :: "int \<Rightarrow> BlameInfo \<Rightarrow> jsstring" where
  "formatBlameLabel nowMs info =
    (let author' = (case author info of None \<Rightarrow> ascii ''Unknown author'' | Some a \<Rightarrow> a);
         summary' = (case summary info of None \<Rightarrow> [] | Some s \<Rightarrow> s);
         when = (case authorTime info of
                   Some t \<Rightarrow> relativeFromNumber t nowMs
                 | None \<Rightarrow> ascii ''unknown date'')
     in [0x2387, 0x20] @ author' @ ascii '', '' @ when @ [0x20, 0xB7, 0x20]
        @ message summary' @ [0x20, 0x2197])"

section \<open>Remote URL normaliser\<close>

text \<open>\<open>r.replace(/\.git$/, "")\<close>: one trailing \<open>.git\<close> is removed.\<close>

definition strip_git_suffix :: "jsstring \<Rightarrow> jsstring" where
  "strip_git_suffix r = (if endsWith r (ascii ''.git'') then take (length r - 4) r else r)"

text \<open>The code units that the regular expression atom \<open>.\<close> does not match.\<close>

definition isLineTerminator :: "jschar \<Rightarrow> bool" where
  "isLineTerminator c = (c = 0x0A \<or> c = 0x0D \<or> c = 0x2028 \<or> c = 0x2029)"

text \<open>
  A match of \<open>^prefix([^d]+)d(.+)$\<close> for a literal prefix and a delimiter code unit
  \<open>d\<close>: the first group is the run up to the first \<open>d\<close> after the prefix and must not
  be empty; the second group is everything after that \<open>d\<close>, not empty and free of
  line terminators.  The result is the pair of groups.
\<close>

definition match_host_path :: "jsstring \<Rightarrow> jschar \<Rightarrow> jsstring \<Rightarrow> (jsstring \<times> jsstring) option" where
  "match_host_path prefix d r =
    (if startsWith r prefix then
       (let rest = drop (length prefix) r;
            host = takeWhile (\<lambda>c. c \<noteq> d) rest
        in case dropWhile (\<lambda>c. c \<noteq> d) rest of
             [] \<Rightarrow> None
           | _ # path \<Rightarrow>
               if host \<noteq> [] \<and> path \<noteq> [] \<and> list_all (\<lambda>c. \<not> isLineTerminator c) path
               then Some (host, path) else None)
     else None)"

text \<open>\<open>/^git@([^:]+):(.+)$/\<close> and \<open>/^ssh:\/\/git@([^/]+)\/(.+)$/\<close>.\<close>

definition scpLike :: "jsstring \<Rightarrow> (jsstring \<times> jsstring) option" where
  "scpLike r = match_host_path (ascii ''git@'') 0x3A r"

definition sshLike :: "jsstring \<Rightarrow> (jsstring \<times> jsstring) option" where
  "sshLike r = match_host_path (ascii ''ssh://git@'') 0x2F r"

text \<open>\<open>normaliseRemoteToHttps(remote)\<close>; \<open>None\<close> is the source's \<open>null\<close>.\<close>

definition normaliseRemoteToHttps :: "jsstring \<Rightarrow> jsstring option" where
  "normaliseRemoteToHttps remote =
    (let r = strip_git_suffix (trim remote) in
     if startsWith r (ascii ''http://'') \<or> startsWith r (ascii ''https://'') then Some r
     else (case scpLike r of
             Some (h, p) \<Rightarrow> Some (ascii ''https://'' @ h @ ascii ''/'' @ p)
           | None \<Rightarrow>
              (case sshLike r of
                 Some (h, p) \<Rightarrow> Some (ascii ''https://'' @ h @ ascii ''/'' @ p)
               | None \<Rightarrow> None)))"

section \<open>Permalink builder\<close>

text \<open>
  \<open>encodeURIComponent\<close>: the unreserved code units (ASCII letters and digits and
  \<open>- _ . ! ~ * ' ( )\<close>) stay; every other code point is written as the bytes of its
  UTF-8 encoding, each as \<open>%\<close> and two upper-case hexadecimal digits.  A surrogate
  pair is one code point; a surrogate without its partner raises URIError, which
  is \<open>None\<close> here.
\<close>

definition unreserved :: "jschar \<Rightarrow> bool" where
  "unreserved c =
    ((0x41 \<le> c \<and> c \<le> 0x5A) \<or> (0x61 \<le> c \<and> c \<le> 0x7A) \<or> (0x30 \<le> c \<and> c \<le> 0x39)
     \<or> c = 0x2D \<or> c = 0x5F \<or> c = 0x2E \<or> c = 0x21 \<or> c = 0x7E \<or> c = 0x2A
     \<or> c = 0x27 \<or> c = 0x28 \<or> c = 0x29)"

definition hex_upper :: "nat \<Rightarrow> jschar" where
  "hex_upper d = (if d < 10 then of_nat (48 + d) else of_nat (55 + d))"

definition percent :: "nat \<Rightarrow> jsstring" where
  "percent b = [0x25, hex_upper (b div 16), hex_upper (b mod 16)]"

definition utf8_percent :: "nat \<Rightarrow> jsstring" where
  "utf8_percent cp =
    (if cp < 0x80 then percent cp
     else if cp < 0x800 then percent (0xC0 + cp div 64) @ percent (0x80 + cp mod 64)
     else if cp < 0x10000 then
       percent (0xE0 + cp div 4096) @ percent (0x80 + (cp div 64) mod 64) @ percent (0x80 + cp mod 64)
     else percent (0xF0 + cp div 262144) @ percent (0x80 + (cp div 4096) mod 64)
          @ percent (0x80 + (cp div 64) mod 64) @ percent (0x80 + cp mod 64))"

definition isHighSurrogate :: "jschar \<Rightarrow> bool" where
  "isHighSurrogate c = (0xD800 \<le> c \<and> c \<le> 0xDBFF)"

definition isLowSurrogate :: "jschar \<Rightarrow> bool" where
  "isLowSurrogate c = (0xDC00 \<le> c \<and> c \<le> 0xDFFF)"

fun encodeURIComponent :: "jsstring \<Rightarrow> jsstring option" where
  "encodeURIComponent [] = Some []"
| "encodeURIComponent (c # cs) =
    (if unreserved c then map_option (\<lambda>r. c # r) (encodeURIComponent cs)
     else if isLowSurrogate c then None
     else if \<not> isHighSurrogate c then
       map_option (\<lambda>r. utf8_percent (unat c) @ r) (encodeURIComponent cs)
     else (case cs of
             [] \<Rightarrow> None
           | d # ds \<Rightarrow>
               if isLowSurrogate d then
                 map_option
                   (\<lambda>r. utf8_percent ((unat c - 0xD800) * 0x400 + (unat d - 0xDC00) + 0x10000) @ r)
                   (encodeURIComponent ds)
               else None))"

text \<open>\<open>remoteHttps.replace(/\/$/, "")\<close>: one trailing slash is removed.\<close>

definition strip_trailing_slash :: "jsstring \<Rightarrow> jsstring" where
  "strip_trailing_slash s = (if endsWith s (ascii ''/'') then take (length s - 1) s else s)"

text \<open>\<open>xs.map(encodeURIComponent)\<close>, with the first URIError propagated.\<close>

fun encode_all :: "jsstring list \<Rightarrow> jsstring list option" where
  "encode_all [] = Some []"
| "encode_all (x # xs) =
    (case encodeURIComponent x of
       None \<Rightarrow> None
     | Some e \<Rightarrow> map_option (\<lambda>es. e # es) (encode_all xs))"

text \<open>\<open>buildFileUrl(remoteHttps, relPath, commit, oneBasedLine)\<close>; \<open>sep\<close> is the
  platform's \<open>path.sep\<close> (a slash, or a backslash on Windows).  \<open>None\<close> is a URIError
  raised by \<open>encodeURIComponent\<close>.\<close>

definition buildFileUrl :: "jschar \<Rightarrow> jsstring \<Rightarrow> jsstring \<Rightarrow> jsstring \<Rightarrow> nat \<Rightarrow> jsstring option" where
  "buildFileUrl sep remoteHttps relPath commit' oneBasedLine =
    (let base = strip_trailing_slash remoteHttps;
         p = join (ascii ''/'') (split sep relPath)
     in case encode_all (split 0x2F p) of
          None \<Rightarrow> None
        | Some encs \<Rightarrow>
           (case encodeURIComponent commit' of
              None \<Rightarrow> None
            | Some encCommit \<Rightarrow>
                Some (base @ ascii ''/blob/'' @ encCommit @ ascii ''/'' @ join (ascii ''/'') encs
                      @ ascii ''#L'' @ decimal oneBasedLine)))"

section \<open>The environment of the server\<close>

text \<open>
  What the server reads from outside, fixed for the duration of one handler:
  \<^item> \<open>exec_git args\<close>: the standard output of \<open>execFileAsync("git", args, ...)\<close>, or
    \<open>None\<close> when the promise rejects (missing executable, non-zero exit, output
    beyond \<open>maxBuffer\<close>);
  \<^item> \<open>fs_stat\<close>: \<open>fs.stat\<close>, \<open>None\<close> when it rejects; the numbers of the result are
    kept abstract (type \<open>'n\<close>) and \<open>json_number\<close> is the text that \<open>JSON.stringify\<close>
    prints for one of them;
  \<^item> \<open>path_dirname\<close>, \<open>path_relative\<close>, \<open>path_sep\<close>: the functions and the constant
    of \<open>node:path\<close>;
  \<^item> \<open>file_uri_path\<close>: \<open>new URL(uri)\<close> followed by the protocol test and
    \<open>fileURLToPath\<close>; \<open>None\<close> when the URI does not parse, is not a \<open>file:\<close> URI or
    cannot be converted;
  \<^item> \<open>date_now\<close>: \<open>Date.now()\<close>;
  \<^item> \<open>open_document\<close>: whether \<open>documents.get(uri)\<close> finds the document;
  \<^item> \<open>client_shows_document\<close>: whether the client answers the
    \<open>window/showDocument\<close> request without an error.
\<close>

record 'n Stats =
  st_mtimeMs :: 'n
  st_size :: 'n

record 'n world =
  exec_git :: "jsstring list \<Rightarrow> jsstring option"
  fs_stat :: "jsstring \<Rightarrow> 'n Stats option"
  json_number :: "'n \<Rightarrow> jsstring"
  path_dirname :: "jsstring \<Rightarrow> jsstring"
  path_relative :: "jsstring \<Rightarrow> jsstring \<Rightarrow> jsstring"
  path_sep :: jschar
  file_uri_path :: "jsstring \<Rightarrow> jsstring option"
  date_now :: int
  open_document :: "jsstring \<Rightarrow> bool"
  client_shows_document :: "jsstring \<Rightarrow> bool"

text \<open>\<open>stdout.trim() || null\<close>.\<close>

definition trim_or_null :: "jsstring \<Rightarrow> jsstring option" where
  "trim_or_null stdout = (if trim stdout = [] then None else Some (trim stdout))"

definition uriToFsPath :: "'n world \<Rightarrow> jsstring \<Rightarrow> jsstring option" where
  "uriToFsPath w uri = file_uri_path w uri"

definition gitRootForFile :: "'n world \<Rightarrow> jsstring \<Rightarrow> jsstring option" where
  "gitRootForFile w filePath =
    (case exec_git w [ascii ''-C'', path_dirname w filePath, ascii ''rev-parse'', ascii ''--show-toplevel''] of
       None \<Rightarrow> None
     | Some stdout \<Rightarrow> trim_or_null stdout)"

definition gitHead :: "'n world \<Rightarrow> jsstring \<Rightarrow> jsstring option" where
  "gitHead w root' =
    (case exec_git w [ascii ''-C'', root', ascii ''rev-parse'', ascii ''HEAD''] of
       None \<Rightarrow> None
     | Some stdout \<Rightarrow> trim_or_null stdout)"

definition getOriginRemote :: "'n world \<Rightarrow> jsstring \<Rightarrow> jsstring option" where
  "getOriginRemote w root' =
    (case exec_git w [ascii ''-C'', root', ascii ''remote'', ascii ''get-url'', ascii ''origin''] of
       None \<Rightarrow> None
     | Some stdout \<Rightarrow> trim_or_null stdout)"

section \<open>Cache key deriver\<close>

text \<open>
  \<open>JSON.stringify\<close> of a string (QuoteJSONString): the quotation mark and the
  backslash are escaped with a backslash, the control characters below U+0020 are
  written \<open>\b \t \n \f \r\<close> or as \<open>\uXXXX\<close> with lower-case hexadecimal digits, and so
  is a surrogate without its partner; every other code unit stands for itself.
\<close>

definition hex_lower :: "nat \<Rightarrow> jschar" where
  "hex_lower d = (if d < 10 then of_nat (48 + d) else of_nat (87 + d))"

definition unicode_escape :: "jschar \<Rightarrow> jsstring" where
  "unicode_escape c =
    [0x5C, 0x75, hex_lower (unat c div 4096), hex_lower ((unat c div 256) mod 16),
     hex_lower ((unat c div 16) mod 16), hex_lower (unat c mod 16)]"

fun quote_body :: "jsstring \<Rightarrow> jsstring" where
  "quote_body [] = []"
| "quote_body (c # cs) =
    (if c = 0x08 then [0x5C, 0x62] @ quote_body cs
     else if c = 0x09 then [0x5C, 0x74] @ quote_body cs
     else if c = 0x0A then [0x5C, 0x6E] @ quote_body cs
     else if c = 0x0C then [0x5C, 0x66] @ quote_body cs
     else if c = 0x0D then [0x5C, 0x72] @ quote_body cs
     else if c = 0x22 then [0x5C, 0x22] @ quote_body cs
     else if c = 0x5C then [0x5C, 0x5C] @ quote_body cs
     else if c < 0x20 then unicode_escape c @ quote_body cs
     else if isLowSurrogate c then unicode_escape c @ quote_body cs
     else if isHighSurrogate c then
       (case cs of
          [] \<Rightarrow> unicode_escape c
        | d # ds \<Rightarrow>
            if isLowSurrogate d then c # d # quote_body ds
            else unicode_escape c @ quote_body cs)
     else c # quote_body cs)"

definition QuoteJSONString :: "jsstring \<Rightarrow> jsstring" where
  "QuoteJSONString s = [0x22] @ quote_body s @ [0x22]"

text \<open>\<open>JSON.stringify({ head, mtimeMs: st?.mtimeMs ?? null, size: st?.size ?? null })\<close>:
  the three properties in this order, no white space.\<close>

definition stringify_key :: "('n \<Rightarrow> jsstring) \<Rightarrow> jsstring option \<Rightarrow> 'n Stats option \<Rightarrow> jsstring" where
  \<open>stringify_key num head st =
    ascii ''{"head":''
    @ (case head of None \<Rightarrow> ascii ''null'' | Some h \<Rightarrow> QuoteJSONString h)
    @ ascii '',"mtimeMs":''
    @ (case st of None \<Rightarrow> ascii ''null'' | Some t \<Rightarrow> num (st_mtimeMs t))
    @ ascii '',"size":''
    @ (case st of None \<Rightarrow> ascii ''null'' | Some t \<Rightarrow> num (st_size t))
    @ ascii ''}''\<close>

record KeyInfo =
  root :: jsstring
  rel :: jsstring
  key :: jsstring

text \<open>\<open>computeKey(filePath)\<close>; \<open>None\<close> is the source's \<open>null\<close>.\<close>

definition computeKey :: "'n world \<Rightarrow> jsstring \<Rightarrow> KeyInfo option" where
  "computeKey w filePath =
    (case gitRootForFile w filePath of
       None \<Rightarrow> None
     | Some root' \<Rightarrow>
        (let head = gitHead w root';
             st = fs_stat w filePath;
             rel' = path_relative w root' filePath;
             key' = stringify_key (json_number w) head st
         in Some \<lparr>root = root', rel = rel', key = key'\<rparr>))"

section \<open>The server state and the cached blame query\<close>

text \<open>
  The state of the process: the module-level \<open>lineCache\<close>, and two logs kept for
  the statements below: the argument vectors of the \<open>git blame\<close> processes started
  so far, and the messages sent to the client so far.
\<close>

datatype client_msg =
    ShowWarningMessage jsstring
  | ShowInformationMessage jsstring
  | ShowDocumentRequest jsstring

record server_state =
  lineCache :: "(jsstring, BlameInfo option) LruCache"
  blame_calls :: "jsstring list list"
  sent :: "client_msg list"

definition initial_state :: server_state where
  "initial_state = \<lparr>lineCache = new_LruCache 800, blame_calls = [], sent = []\<rparr>"

definition blame_args :: "jsstring \<Rightarrow> jsstring \<Rightarrow> nat \<Rightarrow> jsstring list" where
  "blame_args root' rel' oneBasedLine =
    [ascii ''-C'', root', ascii ''blame'', ascii ''--porcelain'', ascii ''-L'',
     decimal oneBasedLine @ ascii '','' @ decimal oneBasedLine, ascii ''--'', rel']"

definition blameSingleLineUncached ::
    "'n world \<Rightarrow> jsstring \<Rightarrow> jsstring \<Rightarrow> nat \<Rightarrow> server_state \<Rightarrow> BlameInfo option \<times> server_state" where
  "blameSingleLineUncached w root' rel' oneBasedLine s =
    (let args = blame_args root' rel' oneBasedLine;
         s' = s\<lparr>blame_calls := blame_calls s @ [args]\<rparr>
     in (case exec_git w args of
           None \<Rightarrow> (None, s')
         | Some stdout \<Rightarrow> (parseBlamePorcelain stdout, s')))"

text \<open>The local constant \<open>cacheKey\<close> of \<open>blameSingleLineCached\<close>.\<close>

definition cacheKey :: "jsstring \<Rightarrow> nat \<Rightarrow> jsstring \<Rightarrow> jsstring" where
  "cacheKey filePath oneBasedLine k = filePath @ ascii ''::'' @ decimal oneBasedLine @ ascii ''::'' @ k"

text \<open>\<open>blameSingleLineCached(filePath, oneBasedLine)\<close>.  The cache holds
  \<open>BlameInfo | null\<close>, so a hit is any value other than undefined, \<open>null\<close> included.\<close>

definition blameSingleLineCached ::
    "'n world \<Rightarrow> jsstring \<Rightarrow> nat \<Rightarrow> server_state \<Rightarrow> BlameInfo option \<times> server_state" where
  "blameSingleLineCached w filePath oneBasedLine s =
    (case computeKey w filePath of
       None \<Rightarrow> (None, s)
     | Some ck \<Rightarrow>
        (let ckey = cacheKey filePath oneBasedLine (key ck);
             (cached, c1) = lru_get (lineCache s) ckey;
             s1 = s\<lparr>lineCache := c1\<rparr>
         in case cached of
              Some v \<Rightarrow> (v, s1)
            | None \<Rightarrow>
               (let (info, s2) = blameSingleLineUncached w (root ck) (rel ck) oneBasedLine s1
                in (info, s2\<lparr>lineCache := lru_set (lineCache s2) ckey info\<rparr>))))"

section \<open>Handlers\<close>

text \<open>\<open>documents.onDidSave\<close>.\<close>

definition onDidSave :: "server_state \<Rightarrow> server_state" where
  "onDidSave s = s\<lparr>lineCache := lru_clear (lineCache s)\<rparr>"

definition CMD_OPEN :: jsstring where
  "CMD_OPEN = ascii ''blame-lsp.openRemoteForLine''"

text \<open>\<open>connection.onCodeAction\<close>: the list of code actions, each given by its title
  and the two arguments of its command; \<open>line0\<close> is \<open>params.range.start.line\<close>.\<close>

definition onCodeAction ::
    "'n world \<Rightarrow> jsstring \<Rightarrow> nat \<Rightarrow> server_state \<Rightarrow> (jsstring \<times> jsstring \<times> nat) list \<times> server_state" where
  "onCodeAction w uri line0 s =
    (if \<not> open_document w uri then ([], s)
     else (case uriToFsPath w uri of
             None \<Rightarrow> ([], s)
           | Some filePath \<Rightarrow>
              (let oneBasedLine = line0 + 1;
                   (info, s1) = blameSingleLineCached w filePath oneBasedLine s
               in case info of
                    None \<Rightarrow> ([], s1)
                  | Some i \<Rightarrow> ([(formatBlameLabel (date_now w) i, uri, oneBasedLine)], s1))))"

text \<open>\<open>openUrlOrShow(url)\<close>: the request is sent; when it fails, the URL is shown in
  an information message.\<close>

definition openUrlOrShow :: "'n world \<Rightarrow> jsstring \<Rightarrow> server_state \<Rightarrow> server_state" where
  "openUrlOrShow w url s =
    (let s1 = s\<lparr>sent := sent s @ [ShowDocumentRequest url]\<rparr>
     in if client_shows_document w url then s1
        else s1\<lparr>sent := sent s1 @ [ShowInformationMessage (ascii ''Open: '' @ url)]\<rparr>)"

definition showWarningMessage :: "jsstring \<Rightarrow> server_state \<Rightarrow> server_state" where
  "showWarningMessage msg s = s\<lparr>sent := sent s @ [ShowWarningMessage msg]\<rparr>"

text \<open>
  \<open>connection.onExecuteCommand\<close>.  The parameters are the command name and the
  first two elements of \<open>params.arguments\<close>, \<open>None\<close> for a missing one; the tests
  \<open>!uri\<close> and \<open>!oneBasedLine\<close> also hold for the empty string and for zero.  The
  result says whether the handler returned or was rejected by the URIError of
  \<open>buildFileUrl\<close>.
\<close>

record ExecuteCommandParams =
  command :: jsstring
  arg_uri :: "jsstring option"
  arg_line :: "nat option"

datatype handler_result = Returned | Rejected

definition onExecuteCommand ::
    "'n world \<Rightarrow> ExecuteCommandParams \<Rightarrow> server_state \<Rightarrow> handler_result \<times> server_state" where
  "onExecuteCommand w params s =
    (if command params \<noteq> CMD_OPEN then (Returned, s)
     else (case (arg_uri params, arg_line params) of
        (Some uri, Some oneBasedLine) \<Rightarrow>
          if uri = [] \<or> oneBasedLine = 0 then (Returned, s)
          else (case uriToFsPath w uri of
             None \<Rightarrow> (Returned, s)
           | Some filePath \<Rightarrow>
              (case computeKey w filePath of
                 None \<Rightarrow> (Returned, showWarningMessage (ascii ''Not in a git repo (or git not available).'') s)
               | Some ck \<Rightarrow>
                  (let remote = getOriginRemote w (root ck);
                       (info, s1) = blameSingleLineCached w filePath oneBasedLine s
                   in case remote of
                        None \<Rightarrow> (Returned, showWarningMessage (ascii ''No 'origin' remote found.'') s1)
                      | Some remote' \<Rightarrow>
                         (case info of
                            None \<Rightarrow> (Returned, showWarningMessage (ascii ''No blame info for that line.'') s1)
                          | Some i \<Rightarrow>
                             (case normaliseRemoteToHttps remote' of
                                None \<Rightarrow> (Returned, showWarningMessage (ascii ''Unsupported remote URL: '' @ remote') s1)
                              | Some remoteHttps \<Rightarrow>
                                 (case buildFileUrl (path_sep w) remoteHttps (rel ck) (commit i) oneBasedLine of
                                    None \<Rightarrow> (Rejected, s1)
                                  | Some url \<Rightarrow> (Returned, openUrlOrShow w url s1)))))))
      | _ \<Rightarrow> (Returned, s)))"

section \<open>Notions used in the statements and proofs\<close>

text \<open>The entries of a cache stand in the order of their last access, the least
  recently accessed first; \<open>hist\<close> lists the accessed keys, the latest first.\<close>

definition by_recency :: "'k list \<Rightarrow> ('k, 'v) js_map \<Rightarrow> bool" where
  "by_recency hist m = sorted_wrt (\<lambda>a b. age b hist < age a hist) (map fst m)"

definition cache_inv :: "'k list \<Rightarrow> ('k, 'v) LruCache \<Rightarrow> bool" where
  "cache_inv hist c = (by_recency hist (map_lru c) \<and> length (map_lru c) \<le> max_lru c)"

text \<open>The map after the key \<open>k\<close> was deleted and set again.\<close>

definition touched :: "'k \<Rightarrow> 'v \<Rightarrow> ('k, 'v) js_map \<Rightarrow> ('k, 'v) js_map" where
  "touched k v m = map_delete k m @ [(k, v)]"

text \<open>
  The text of a cache key token begins with a brace, a quotation mark and the
  letter h.  \<open>no_key_start s\<close> says that no suffix of \<open>s\<close> begins like that.
\<close>

definition key_start :: "jsstring \<Rightarrow> bool" where
  "key_start s = startsWith s [0x7B, 0x22, 0x68]"

fun no_key_start :: "jsstring \<Rightarrow> bool" where
  "no_key_start [] = True"
| "no_key_start (x # xs) = (\<not> key_start (x # xs) \<and> no_key_start xs)"

section \<open>Properties of the relative time phrasing\<close>

lemma relative_boundaries:
  "relativeFromUnixSeconds 0 9000 = ascii ''just now''
   \<and> relativeFromUnixSeconds 0 10000 = ascii ''10 secs ago''
   \<and> relativeFromUnixSeconds 0 59000 = ascii ''59 secs ago''
   \<and> relativeFromUnixSeconds 0 60000 = ascii ''1 min ago''
   \<and> relativeFromUnixSeconds 0 3599000 = ascii ''59 mins ago''
   \<and> relativeFromUnixSeconds 0 3600000 = ascii ''1 hour ago''"
  by code_simp

text \<open>
  C4.  The boundary examples of the claim hold on the code (9 s, 10 s, 59 s, 60 s,
  3599 s, 3600 s), but the last two buckets do not meet at one year: the month
  bucket ends at 360 days (twelve 30-day months) while the year count divides by
  365, so an elapsed time of 360 days (31104000 seconds), and any up to the end
  of day 364, is phrased with a year count of zero, "0 year ago".  One day less
  gives "11 months ago", 365 days give "1 year ago".
\<close>

theorem relative_360_days_zero_years:
  "relativeFromUnixSeconds 0 (31104000 * 1000) = ascii ''0 year ago''
   \<and> relativeFromUnixSeconds 0 (364 * 86400 * 1000 + 86399999) = ascii ''0 year ago''
   \<and> relativeFromUnixSeconds 0 (359 * 86400 * 1000) = ascii ''11 months ago''
   \<and> relativeFromUnixSeconds 0 (365 * 86400 * 1000) = ascii ''1 year ago''"
  by code_simp

section \<open>Properties of the label formatter\<close>

lemma formatBlameLabel_message:
  "\<exists>pre. formatBlameLabel nowMs info
      = pre @ message (case summary info of None \<Rightarrow> [] | Some s \<Rightarrow> s) @ [0x20, 0x2197]"
  by (simp add: formatBlameLabel_def Let_def del: append_assoc add: append_assoc [symmetric])

text \<open>
  C3.  The message part of the label is the summary itself when the summary has at
  most 60 code units, and otherwise its first 80 code units followed by the
  ellipsis marker.  A summary of exactly 60 code units is left as it is; one of 61
  code units takes the marker (its 61 code units are all within the 80 kept, so
  none is dropped).  The label ends with the message followed by the closing
  space and arrow.
\<close>

theorem label_summary_truncation:
  "(length s \<le> 60 \<longrightarrow> message s = s)
   \<and> (length s > 60 \<longrightarrow> message s = take 80 s @ [0x2026])
   \<and> (length s = 60 \<longrightarrow> message s = s)
   \<and> (length s = 61 \<longrightarrow> message s = s @ [0x2026] \<and> message s \<noteq> s)
   \<and> (summary info = Some s \<longrightarrow>
        (\<exists>pre. formatBlameLabel nowMs info = pre @ message s @ [0x20, 0x2197]))"
proof -
  have "summary info = Some s \<longrightarrow>
        (\<exists>pre. formatBlameLabel nowMs info = pre @ message s @ [0x20, 0x2197])"
    using formatBlameLabel_message [of nowMs info] by auto
  then show ?thesis
    by (simp add: message_def maxLen_def ellipsis_def)
qed

theorem label_summary_truncation_witness:
  "message (replicate 60 0x61) = replicate 60 0x61
   \<and> message (replicate 61 0x61) = replicate 61 0x61 @ [0x2026]
   \<and> message (replicate 100 0x61) = replicate 80 0x61 @ [0x2026]
   \<and> (\<exists>pre. formatBlameLabel 0 \<lparr>commit = ascii ''c0ffee'', author = None, authorTime = None,
                summary = Some (replicate 61 0x61)\<rparr> = pre @ replicate 61 0x61 @ [0x2026, 0x20, 0x2197])"
proof -
  let ?i = "\<lparr>commit = ascii ''c0ffee'', author = None, authorTime = None,
             summary = Some (replicate 61 (0x61 :: jschar))\<rparr>"
  have a: "message (replicate 60 0x61) = replicate 60 0x61"
    using label_summary_truncation [of "replicate 60 0x61"] by simp
  have b: "message (replicate 61 0x61) = replicate 61 0x61 @ [0x2026]"
    using label_summary_truncation [of "replicate 61 0x61"] by simp
  have c: "message (replicate 100 0x61) = replicate 80 0x61 @ [0x2026]"
    using label_summary_truncation [of "replicate 100 0x61"] by simp
  have "\<exists>pre. formatBlameLabel 0 ?i = pre @ message (replicate 61 0x61) @ [0x20, 0x2197]"
    using label_summary_truncation [of "replicate 61 0x61" ?i 0] by force
  then have d: "\<exists>pre. formatBlameLabel 0 ?i = pre @ replicate 61 0x61 @ [0x2026, 0x20, 0x2197]"
    unfolding b by simp
  from a b c d show ?thesis by blast
qed

section \<open>Properties of the bounded cache\<close>

lemma by_recency_distinct: "by_recency hist m \<Longrightarrow> distinct (map fst m)"
  unfolding by_recency_def
  by (induction m) auto

lemma map_has_iff: "map_has m k \<longleftrightarrow> k \<in> fst ` set m"
  by (simp add: map_has_def map_of_eq_None_iff)

lemma map_get_None_iff: "map_get m k = None \<longleftrightarrow> k \<notin> fst ` set m"
  by (simp add: map_get_def map_of_eq_None_iff)

lemma map_set_fresh: "k \<notin> fst ` set m \<Longrightarrow> map_set k v m = m @ [(k, v)]"
  by (simp add: map_set_def map_has_iff)

lemma map_delete_absent: "k \<notin> fst ` set (map_delete k m)"
  by (auto simp: map_delete_def)

lemma map_delete_id: "k \<notin> fst ` set m \<Longrightarrow> map_delete k m = m"
  by (induction m) (auto simp: map_delete_def)

lemma map_delete_hd:
  assumes "distinct (map fst m)"
  shows "map_delete (fst (hd m)) m = tl m"
proof (cases m)
  case Nil
  then show ?thesis by (simp add: map_delete_def)
next
  case (Cons e es)
  with assms have "\<forall>x \<in> set es. fst x \<noteq> fst e" by (force simp: image_iff)
  then have "filter (\<lambda>x. fst x \<noteq> fst e) es = es" by (simp add: filter_True)
  with Cons show ?thesis by (simp add: map_delete_def)
qed

lemma evict_drop: "distinct (map fst m) \<Longrightarrow> evict mx m = drop (length m - mx) m"
proof (induction mx m rule: evict.induct)
  case (1 mx m)
  show ?case
  proof (cases "map_size m > mx")
    case False
    then show ?thesis by (simp add: evict.simps [of mx m] map_size_def)
  next
    case True
    then have ne: "m \<noteq> []" by (auto simp: map_size_def)
    have d: "map_delete (fst (hd m)) m = tl m" using 1(2) by (rule map_delete_hd)
    have "distinct (map fst (tl m))" using 1(2) ne by (cases m) auto
    with 1 True d have "evict mx (tl m) = drop (length (tl m) - mx) (tl m)" by simp
    moreover have "drop (length (tl m) - mx) (tl m) = drop (length m - mx) m"
      using True ne by (cases m) (auto simp: map_size_def Suc_diff_le)
    ultimately show ?thesis using True d by (simp add: evict.simps [of mx m])
  qed
qed

lemma by_recency_miss:
  assumes "by_recency hist m" and "k \<notin> fst ` set m"
  shows "by_recency (k # hist) m"
proof -
  have "sorted_wrt (\<lambda>a b. age b (k # hist) < age a (k # hist)) (map fst m)"
    using assms(1) unfolding by_recency_def
  proof (rule sorted_wrt_mono_rel [rotated])
    fix a b assume "a \<in> set (map fst m)" "b \<in> set (map fst m)" "age b hist < age a hist"
    with assms(2) show "age b (k # hist) < age a (k # hist)" by auto
  qed
  then show ?thesis by (simp add: by_recency_def)
qed

lemma by_recency_delete: "by_recency hist m \<Longrightarrow> by_recency hist (map_delete k m)"
  unfolding by_recency_def map_delete_def
  by (induction m) auto

lemma by_recency_touched:
  assumes "by_recency hist m"
  shows "by_recency (k # hist) (touched k v m)"
proof -
  have "by_recency (k # hist) (map_delete k m)"
    using assms by (intro by_recency_miss by_recency_delete map_delete_absent)
  moreover have "\<forall>a \<in> fst ` set (map_delete k m). age k (k # hist) < age a (k # hist)"
    using map_delete_absent [of k m] by auto
  ultimately show ?thesis
    by (auto simp: by_recency_def sorted_wrt_append touched_def)
qed

lemma by_recency_drop: "by_recency hist m \<Longrightarrow> by_recency hist (drop n m)"
  unfolding by_recency_def by (simp add: drop_map [symmetric] sorted_wrt_drop)

lemma lru_get_miss: "map_get (map_lru c) k = None \<Longrightarrow> lru_get c k = (None, c)"
  by (simp add: lru_get_def)

lemma lru_get_hit:
  "map_get (map_lru c) k = Some v \<Longrightarrow>
   lru_get c k = (Some v, c\<lparr>map_lru := touched k v (map_lru c)\<rparr>)"
  by (simp add: lru_get_def map_set_fresh map_delete_absent touched_def)

lemma lru_set_eq:
  assumes "distinct (map fst (map_lru c))"
  shows "lru_set c k v =
    c\<lparr>map_lru := drop (length (touched k v (map_lru c)) - max_lru c) (touched k v (map_lru c))\<rparr>"
proof -
  let ?m = "map_lru c"
  have m1: "(if map_has ?m k then map_delete k ?m else ?m) = map_delete k ?m"
    by (simp add: map_has_iff map_delete_id)
  have m2: "map_set k v (map_delete k ?m) = touched k v ?m"
    by (simp add: map_set_fresh map_delete_absent touched_def)
  have "distinct (map fst (map_delete k ?m))"
    using assms by (simp add: map_delete_def distinct_map_filter)
  then have "distinct (map fst (touched k v ?m))"
    using map_delete_absent [of k ?m] by (auto simp: touched_def)
  then show ?thesis
    by (simp add: lru_set_def m1 m2 evict_drop Let_def)
qed

lemma touched_length_hit: "map_get m k = Some v \<Longrightarrow> length (touched k v' m) \<le> length m"
proof -
  assume "map_get m k = Some v"
  then have "(k, v) \<in> set m" by (auto simp: map_get_def dest: map_of_SomeD)
  then have "length (filter (\<lambda>e. fst e \<noteq> k) m) < length m"
    by (intro length_filter_less [where x = "(k, v)"]) auto
  then show ?thesis by (simp add: touched_def map_delete_def)
qed

lemma apply_op_max: "max_lru (apply_op c x) = max_lru c"
  by (cases x) (auto simp: lru_get_def lru_set_def Let_def split: option.splits)

lemma cache_inv_step:
  assumes "cache_inv hist c"
  shows "cache_inv (op_key x # hist) (apply_op c x)"
proof (cases x)
  case (Get k)
  show ?thesis
  proof (cases "map_get (map_lru c) k")
    case None
    with assms Get show ?thesis
      by (simp add: cache_inv_def lru_get_miss by_recency_miss map_get_None_iff)
  next
    case (Some v)
    have "length (touched k v (map_lru c)) \<le> length (map_lru c)"
      using Some by (rule touched_length_hit)
    with assms have "length (touched k v (map_lru c)) \<le> max_lru c"
      by (simp add: cache_inv_def)
    with assms Some Get show ?thesis
      by (simp add: cache_inv_def lru_get_hit by_recency_touched)
  qed
next
  case (Set k v)
  have d: "distinct (map fst (map_lru c))"
    using assms by (auto simp: cache_inv_def dest: by_recency_distinct)
  have "by_recency (k # hist) (touched k v (map_lru c))"
    using assms by (simp add: cache_inv_def by_recency_touched)
  then show ?thesis
    using Set by (simp add: cache_inv_def lru_set_eq [OF d] by_recency_drop)
qed

lemma run_ops_snoc: "run_ops c (ops @ [x]) = apply_op (run_ops c ops) x"
  by (simp add: run_ops_def)

lemma run_ops_max: "max_lru (run_ops c ops) = max_lru c"
  by (induction ops rule: rev_induct) (simp_all add: run_ops_snoc apply_op_max, simp add: run_ops_def)

lemma cache_inv_run:
  "cache_inv (rev (map op_key ops)) (run_ops (new_LruCache C) ops)"
proof (induction ops rule: rev_induct)
  case Nil
  show ?case by (simp add: cache_inv_def by_recency_def run_ops_def new_LruCache_def)
next
  case (snoc x ops)
  then show ?case by (simp add: run_ops_snoc cache_inv_step)
qed

text \<open>
  C1.  Start from the empty cache of capacity \<open>C\<close> and run any sequence \<open>ops\<close> of
  \<open>get\<close> and \<open>set\<close> operations.  The cache then holds at most \<open>C\<close> entries (and so
  after every operation, each prefix of \<open>ops\<close> being such a sequence).  When
  \<open>C > 0\<close>, the cache is full and \<open>k\<close> is not in it, \<open>set(k, v)\<close> removes exactly
  one entry, the first of the map, and appends the new one; every entry that
  stays was accessed (by \<open>get\<close> or \<open>set\<close>) strictly more recently than the one
  removed.
\<close>

theorem lru_bounded_evicts_least_recent:
  fixes ops :: "('k, 'v) cache_op list" and C :: nat
  defines "c \<equiv> run_ops (new_LruCache C) ops"
  shows "length (map_lru c) \<le> C
    \<and> (0 < C \<and> map_get (map_lru c) k = None \<and> length (map_lru c) = C \<longrightarrow>
        (\<exists>old rest. map_lru c = old # rest
           \<and> map_lru (lru_set c k v) = rest @ [(k, v)]
           \<and> (\<forall>e \<in> set rest. since_access ops (fst e) < since_access ops (fst old))))"
proof -
  have inv: "cache_inv (rev (map op_key ops)) c"
    unfolding c_def by (rule cache_inv_run)
  have mx: "max_lru c = C" by (simp add: c_def new_LruCache_def run_ops_max)
  have bound: "length (map_lru c) \<le> C"
    using inv mx by (simp add: cache_inv_def)
  have evict: "\<exists>old rest. map_lru c = old # rest
           \<and> map_lru (lru_set c k v) = rest @ [(k, v)]
           \<and> (\<forall>e \<in> set rest. since_access ops (fst e) < since_access ops (fst old))"
    if "0 < C" and miss: "map_get (map_lru c) k = None" and full: "length (map_lru c) = C"
  proof -
    from that obtain old rest where m: "map_lru c = old # rest"
      by (cases "map_lru c") auto
    have d: "distinct (map fst (map_lru c))"
      using inv by (auto simp: cache_inv_def dest: by_recency_distinct)
    have del: "map_delete k (map_lru c) = map_lru c"
      using miss by (intro map_delete_id) (simp add: map_get_None_iff)
    have "touched k v (map_lru c) = old # rest @ [(k, v)]"
      unfolding touched_def del by (simp add: m)
    then have "map_lru (lru_set c k v) = rest @ [(k, v)]"
      using full m by (simp add: lru_set_eq [OF d] mx)
    moreover have "\<forall>e \<in> set rest. since_access ops (fst e) < since_access ops (fst old)"
      using inv m by (auto simp: cache_inv_def by_recency_def since_access_def)
    ultimately show ?thesis using m by blast
  qed
  from bound evict show ?thesis by blast
qed

lemma lru_example_run:
  "run_ops (new_LruCache 2) [Set (5::nat) (50::nat), Set 6 60, Get 5]
     = \<lparr>map_lru = [(6, 60), (5, 50)], max_lru = 2\<rparr>"
  by (simp add: run_ops_def new_LruCache_def lru_set_def lru_get_def map_has_def map_set_def
      map_get_def map_delete_def evict.simps map_size_def Let_def)

theorem lru_bounded_evicts_least_recent_witness:
  "length (map_lru (run_ops (new_LruCache 2) [Set (5::nat) (50::nat), Set 6 60, Get 5])) \<le> 2
   \<and> map_get (map_lru (run_ops (new_LruCache 2) [Set (5::nat) (50::nat), Set 6 60, Get 5])) 7 = None
   \<and> map_lru (lru_set (run_ops (new_LruCache 2) [Set (5::nat) (50::nat), Set 6 60, Get 5]) 7 70)
       = [(5, 50), (7, 70)]
   \<and> since_access [Set (5::nat) (50::nat), Set 6 60, Get 5] 5
       < since_access [Set (5::nat) (50::nat), Set 6 60, Get 5] 6"
proof -
  let ?ops = "[Set (5::nat) (50::nat), Set 6 60, Get 5]"
  let ?c = "run_ops (new_LruCache 2) ?ops"
  have m: "map_lru ?c = [(6, 60), (5, 50)]" by (simp add: lru_example_run)
  have miss: "map_get (map_lru ?c) 7 = None" by (simp add: m map_get_def)
  from lru_bounded_evicts_least_recent [of 2 ?ops 7 70] m miss
  obtain old rest where *: "map_lru ?c = old # rest"
      "map_lru (lru_set ?c 7 70) = rest @ [(7, 70)]"
      "\<forall>e \<in> set rest. since_access ?ops (fst e) < since_access ?ops (fst old)"
    by auto
  from *(1) m have "old = (6, 60)" "rest = [(5, 50)]" by simp_all
  with * m miss show ?thesis by simp
qed

section \<open>Properties of the remote URL normaliser\<close>

lemma startsWith_append: "startsWith (p @ s) p"
  by (simp add: startsWith_def)

lemma startsWith_iff: "startsWith s p \<longleftrightarrow> (\<exists>t. s = p @ t)"
proof
  assume "startsWith s p"
  then have "s = p @ drop (length p) s"
    by (metis append_take_drop_id startsWith_def)
  then show "\<exists>t. s = p @ t" ..
next
  assume "\<exists>t. s = p @ t"
  then show "startsWith s p" by (auto simp: startsWith_def)
qed









lemma trimEnd_append:
  assumes "p \<noteq> []" and "\<not> isWhiteSpace (last p)"
  shows "trimEnd (p @ u) = p @ trimEnd u"
proof -
  have "dropWhile isWhiteSpace (rev p) = rev p"
    using assms by (cases p rule: rev_cases) auto
  then have "dropWhile isWhiteSpace (rev u @ rev p) = dropWhile isWhiteSpace (rev u) @ rev p"
    by (simp add: dropWhile_append)
  then show ?thesis by (simp add: trimEnd_def)
qed

lemma trim_append:
  assumes "p \<noteq> []" and "\<not> isWhiteSpace (hd p)" and "\<not> isWhiteSpace (last p)"
  shows "trim (p @ u) = p @ trimEnd u"
proof -
  have "trimStart (p @ u) = p @ u"
    using assms by (cases p) (auto simp: trimStart_def)
  then show ?thesis using assms by (simp add: trim_def trimEnd_append)
qed

lemma strip_git_suffix_http: "\<exists>y. strip_git_suffix (ascii ''http://'' @ t) = ascii ''http://'' @ y"
proof (cases "endsWith (ascii ''http://'' @ t) (ascii ''.git'')")
  case False
  then show ?thesis by (simp add: strip_git_suffix_def)
next
  case True
  have "4 \<le> length t"
  proof (rule ccontr)
    assume "\<not> 4 \<le> length t"
    then consider "t = []" | a where "t = [a]" | a b where "t = [a, b]" | a b c where "t = [a, b, c]"
      by (cases t; cases "tl t"; cases "tl (tl t)"; cases "tl (tl (tl t))") auto
    then show False using True
      by cases (simp_all add: endsWith_def ascii_def)
  qed
  then have "length (ascii ''http://'' @ t) - 4 = length (ascii ''http://'') + (length t - 4)"
    by simp
  then have "take (length (ascii ''http://'' @ t) - 4) (ascii ''http://'' @ t)
      = ascii ''http://'' @ take (length t - 4) t"
    by simp
  with True show ?thesis by (simp add: strip_git_suffix_def)
qed

text \<open>
  C10.  A remote that begins with \<open>http://\<close> is accepted: the result is the remote
  with surrounding white space and one trailing \<open>.git\<close> removed, it still begins
  with \<open>http://\<close>, and it does not begin with \<open>https://\<close>.  For a remote without
  surrounding white space (the server passes trimmed text) the result is the
  remote itself apart from the trailing \<open>.git\<close>.
\<close>

theorem normalise_accepts_plain_http:
  fixes u :: jsstring
  defines "remote \<equiv> ascii ''http://'' @ u"
  shows "normaliseRemoteToHttps remote = Some (strip_git_suffix (trim remote))
    \<and> startsWith (strip_git_suffix (trim remote)) (ascii ''http://'')
    \<and> \<not> startsWith (strip_git_suffix (trim remote)) (ascii ''https://'')
    \<and> (trim remote = remote \<longrightarrow> normaliseRemoteToHttps remote = Some (strip_git_suffix remote))"
proof -
  have "trim remote = ascii ''http://'' @ trimEnd u"
    unfolding remote_def by (rule trim_append) (simp_all add: ascii_def isWhiteSpace_def)
  then obtain y where y: "strip_git_suffix (trim remote) = ascii ''http://'' @ y"
    using strip_git_suffix_http [of "trimEnd u"] by auto
  have sw: "startsWith (strip_git_suffix (trim remote)) (ascii ''http://'')"
    unfolding y by (rule startsWith_append)
  have ns: "\<not> startsWith (strip_git_suffix (trim remote)) (ascii ''https://'')"
    unfolding y by (simp add: startsWith_def ascii_def)
  have "normaliseRemoteToHttps remote = Some (strip_git_suffix (trim remote))"
    using sw by (simp add: normaliseRemoteToHttps_def Let_def)
  with sw ns show ?thesis by auto
qed

theorem normalise_accepts_plain_http_witness:
  "trim (ascii ''http://'' @ ascii ''example.com/org/repo.git'') = ascii ''http://'' @ ascii ''example.com/org/repo.git''
   \<and> normaliseRemoteToHttps (ascii ''http://'' @ ascii ''example.com/org/repo.git'')
       = Some (ascii ''http://example.com/org/repo'')"
proof -
  have t: "trim (ascii ''http://'' @ ascii ''example.com/org/repo.git'') = ascii ''http://'' @ ascii ''example.com/org/repo.git''"
    by code_simp
  have s: "strip_git_suffix (ascii ''http://'' @ ascii ''example.com/org/repo.git'') = ascii ''http://example.com/org/repo''"
    by code_simp
  from normalise_accepts_plain_http [of "ascii ''example.com/org/repo.git''"] t s
  show ?thesis by simp
qed

section \<open>Properties of the permalink builder\<close>

lemma split_no_sep: "sep \<notin> set s \<Longrightarrow> split sep s = [s]"
  by (induction s) auto

lemma split_append_sep: "sep \<notin> set s \<Longrightarrow> split sep (s @ sep # rest) = s # split sep rest"
  by (induction s) auto

lemma split_join:
  assumes "segs \<noteq> []" and "\<forall>s \<in> set segs. sep \<notin> set s"
  shows "split sep (join [sep] segs) = segs"
  using assms
proof (induction "[sep]" segs rule: join.induct)
  case 1
  then show ?case by simp
next
  case (2 x)
  then show ?case by (simp add: split_no_sep)
next
  case (3 x y ys)
  then show ?case by (simp add: split_append_sep)
qed

lemma strip_trailing_slash_id: "s = [] \<or> last s \<noteq> 0x2F \<Longrightarrow> strip_trailing_slash s = s"
proof (cases s rule: rev_cases)
  case Nil
  then show ?thesis by (simp add: strip_trailing_slash_def endsWith_def ascii_def)
next
  case (snoc ys y)
  assume "s = [] \<or> last s \<noteq> 0x2F"
  with snoc show ?thesis by (simp add: strip_trailing_slash_def endsWith_def ascii_def)
qed

lemma strip_trailing_slash_snoc: "strip_trailing_slash (s @ [0x2F]) = s"
  by (simp add: strip_trailing_slash_def endsWith_def ascii_def)

text \<open>
  C7, as the code has it.  Let the path consist of the segments \<open>segs\<close> joined by
  the platform separator (no segment containing that separator or a slash), and
  let percent-encoding be defined for the commit and for every segment (no
  surrogate without its partner).  Then the permalink is the base with one
  trailing slash removed, \<open>/blob/\<close>, the encoded commit, a slash, the encoded
  segments joined by slashes, \<open>#L\<close> and the line number in decimal.  For a base
  that does not end with a slash this is the plain concatenation of the claim.
\<close>

theorem buildFileUrl_concatenation:
  assumes "segs \<noteq> []"
      and "\<forall>s \<in> set segs. sep \<notin> set s \<and> 0x2F \<notin> set s"
      and "encode_all segs = Some encs"
      and "encodeURIComponent commit' = Some encCommit"
  shows "buildFileUrl sep base (join [sep] segs) commit' oneBasedLine
           = Some (strip_trailing_slash base @ ascii ''/blob/'' @ encCommit @ ascii ''/''
                   @ join (ascii ''/'') encs @ ascii ''#L'' @ decimal oneBasedLine)
         \<and> (base = [] \<or> last base \<noteq> 0x2F \<longrightarrow> strip_trailing_slash base = base)
         \<and> strip_trailing_slash (base @ ascii ''/'') = base"
proof -
  have 1: "split sep (join [sep] segs) = segs"
    using assms(1,2) by (intro split_join) auto
  have "ascii ''/'' = [0x2F]" by (simp add: ascii_def)
  then have 2: "split 0x2F (join (ascii ''/'') segs) = segs"
    using assms(1,2) by (simp add: split_join)
  show ?thesis
    using assms(3,4)
    by (simp add: buildFileUrl_def Let_def 1 2 strip_trailing_slash_id)
       (simp add: ascii_def strip_trailing_slash_snoc)
qed

lemma permalink_example_encodings:
  "encode_all [ascii ''src'', ascii ''a b.ts''] = Some [ascii ''src'', ascii ''a%20b.ts'']"
  "encodeURIComponent (ascii ''abc123...'') = Some (ascii ''abc123...'')"
  by code_simp+

theorem buildFileUrl_concatenation_witness:
  "buildFileUrl 0x2F (ascii ''https://github.com/org/repo'') (ascii ''src/a b.ts'') (ascii ''abc123...'') 42
     = Some (ascii ''https://github.com/org/repo/blob/abc123.../src/a%20b.ts#L42'')
   \<and> buildFileUrl 0x5C (ascii ''https://github.com/org/repo'') (ascii ''src'' @ [0x5C] @ ascii ''a b.ts'')
        (ascii ''abc123...'') 42
     = Some (ascii ''https://github.com/org/repo/blob/abc123.../src/a%20b.ts#L42'')"
proof -
  let ?segs = "[ascii ''src'', ascii ''a b.ts'']"
  have seg: "\<forall>s \<in> set ?segs. 0x2F \<notin> set s \<and> 0x2F \<notin> set s"
      "\<forall>s \<in> set ?segs. 0x5C \<notin> set s \<and> 0x2F \<notin> set s"
    by (simp_all add: ascii_def)
  have base: "strip_trailing_slash (ascii ''https://github.com/org/repo'') = ascii ''https://github.com/org/repo''"
    by code_simp
  have d: "decimal 42 = ascii ''42''" by code_simp
  have j: "join [0x2F] ?segs = ascii ''src/a b.ts''"
      "join [0x5C] ?segs = ascii ''src'' @ [0x5C] @ ascii ''a b.ts''"
    by (simp_all add: ascii_def)
  have cat: "ascii ''https://github.com/org/repo'' @ ascii ''/blob/'' @ ascii ''abc123...'' @ ascii ''/''
      @ join (ascii ''/'') [ascii ''src'', ascii ''a%20b.ts''] @ ascii ''#L'' @ ascii ''42''
      = ascii ''https://github.com/org/repo/blob/abc123.../src/a%20b.ts#L42''"
    by (simp add: ascii_def)
  from buildFileUrl_concatenation [of ?segs "0x2F", OF _ seg(1) permalink_example_encodings,
      of "ascii ''https://github.com/org/repo''" 42]
  have a: "buildFileUrl 0x2F (ascii ''https://github.com/org/repo'') (ascii ''src/a b.ts'') (ascii ''abc123...'') 42
     = Some (ascii ''https://github.com/org/repo/blob/abc123.../src/a%20b.ts#L42'')"
    unfolding j base d cat by simp
  from buildFileUrl_concatenation [of ?segs "0x5C", OF _ seg(2) permalink_example_encodings,
      of "ascii ''https://github.com/org/repo''" 42]
  have b: "buildFileUrl 0x5C (ascii ''https://github.com/org/repo'') (ascii ''src'' @ [0x5C] @ ascii ''a b.ts'')
        (ascii ''abc123...'') 42
     = Some (ascii ''https://github.com/org/repo/blob/abc123.../src/a%20b.ts#L42'')"
    unfolding j base d cat by simp
  from a b show ?thesis by blast
qed

text \<open>
  C7, counterexample to the claim as stated.  For a base that ends with a slash the
  result is not the concatenation of the base with \<open>/blob/...\<close> (which would have
  two slashes): the builder removes the trailing slash of the base first.
\<close>

theorem buildFileUrl_strips_base_slash:
  "buildFileUrl 0x2F (ascii ''https://github.com/org/repo/'') (ascii ''src/a b.ts'') (ascii ''abc123...'') 42
     = Some (ascii ''https://github.com/org/repo/blob/abc123.../src/a%20b.ts#L42'')
   \<and> buildFileUrl 0x2F (ascii ''https://github.com/org/repo/'') (ascii ''src/a b.ts'') (ascii ''abc123...'') 42
     \<noteq> Some (ascii ''https://github.com/org/repo/'' @ ascii ''/blob/'' @ ascii ''abc123...'' @ ascii ''/''
              @ ascii ''src/a%20b.ts'' @ ascii ''#L'' @ ascii ''42'')"
  by code_simp

section \<open>Properties of number rounding\<close>

lemma round_half_even_of_int: "round_half_even (of_int k) = k"
  by (simp add: round_half_even_def)

lemma floor_log2_of_int:
  assumes "0 < m"
  shows "floor_log2 (of_int m) = bitlen m - 1"
proof -
  have q: "quotient_of (of_int m) = (m, 1)" by (simp add: quotient_of_int)
  have b1: "bitlen 1 = 1" by (simp add: bitlen_alt_def)
  from assms have ge: "1 \<le> bitlen m" by (auto simp: bitlen_alt_def)
  have "(2::int) ^ nat (bitlen m - 1) \<le> m" using bitlen_bounds [OF assms] by simp
  then have "(of_int ((2::int) ^ nat (bitlen m - 1)) :: rat) \<le> of_int m"
    by (simp only: of_int_le_iff)
  then have "(2::rat) powi (bitlen m - 1) \<le> of_int m"
    using ge by (simp add: power_int_nonneg_exp)
  then show ?thesis by (simp add: floor_log2_def q b1)
qed

text \<open>An integer of magnitude at most 2^53 is a double.\<close>

lemma round_to_double_exact:
  assumes "\<bar>i\<bar> \<le> 2 ^ 53"
  shows "round_to_double (of_int i) = Finite (of_int i)"
proof (cases "i = 0")
  case True
  then show ?thesis by (simp add: round_to_double_def)
next
  case False
  define m where "m = \<bar>i\<bar>"
  have m: "0 < m" "m \<le> 2 ^ 53" using False assms by (simp_all add: m_def)
  define e where "e = bitlen m - 1"
  have e0: "0 \<le> e" using m(1) by (auto simp: e_def bitlen_alt_def)
  have lo: "(2::int) ^ nat e \<le> m" using bitlen_bounds [OF m(1)] by (simp add: e_def)
  from lo m(2) have le: "(2::int) ^ nat e \<le> 2 ^ 53" by (rule order_trans)
  have "(1::int) < 2" by simp
  from this le have "nat e \<le> 53" by (rule power_le_imp_le_exp)
  with e0 have e53: "e \<le> 53" by simp
  have fl: "floor_log2 (of_int m) = e"
    using floor_log2_of_int [OF m(1)] by (simp add: e_def)
  have mx: "max e (- 1022) = e" using e0 by simp
  have "\<exists>k. (of_int m :: rat) / 2 powi (e - 52) = of_int k
            \<and> of_int k * (2::rat) powi (e - 52) = of_int m"
  proof (cases "e \<le> 52")
    case True
    define j where "j = nat (52 - e)"
    have ej: "e - 52 = - int j" using True by (simp add: j_def)
    have p: "(2::rat) powi (e - 52) = 1 / 2 ^ j"
      unfolding ej by (simp add: power_int_minus_divide)
    have "(of_int m :: rat) / 2 powi (e - 52) = of_int (m * 2 ^ j)"
      unfolding p by simp
    moreover have "of_int (m * 2 ^ j) * (2::rat) powi (e - 52) = of_int m"
      unfolding p by simp
    ultimately show ?thesis by blast
  next
    case False
    with e53 have e: "e = 53" by simp
    with lo m(2) have m53: "m = 2 ^ 53" by simp
    have "(of_int m :: rat) / 2 powi (e - 52) = of_int (2 ^ 52)"
      unfolding e m53 by simp
    moreover have "of_int (2 ^ 52) * (2::rat) powi (e - 52) = of_int m"
      unfolding e m53 by simp
    ultimately show ?thesis by blast
  qed
  then obtain k where k: "(of_int m :: rat) / 2 powi (e - 52) = of_int k"
      "of_int k * (2::rat) powi (e - 52) = of_int m"
    by blast
  have abs: "\<bar>of_int i :: rat\<bar> = of_int m" by (simp add: m_def)
  have small: "\<not> (2::rat) ^ 1024 \<le> of_int m"
  proof -
    have "(of_int m :: rat) \<le> of_int (2 ^ 53)" using m(2) by (simp only: of_int_le_iff)
    also have "\<dots> < 2 ^ 1024" by simp
    finally show ?thesis by simp
  qed
  have sign: "(if (of_int i :: rat) < 0 then - of_int m else of_int m) = (of_int i :: rat)"
    by (simp add: m_def)
  have nz: "(of_int i :: rat) \<noteq> 0" using False by simp
  have r: "of_int (round_half_even (\<bar>of_int i\<bar> / 2 powi (max (floor_log2 \<bar>of_int i\<bar>) (- 1022) - 52)))
        * 2 powi (max (floor_log2 \<bar>of_int i :: rat\<bar>) (- 1022) - 52) = (of_int m :: rat)"
    unfolding abs fl mx k(1) round_half_even_of_int k(2) ..
  show ?thesis
    unfolding round_to_double_def Let_def r
    using nz small sign by simp
qed

lemma round_to_double_minus: "round_to_double (- x) = negate (round_to_double x)"
  by (cases "x = 0"; cases "x < 0") (auto simp: round_to_double_def Let_def)

section \<open>Properties of decimal numbers and trimming\<close>

lemma digit_char:
  assumes "d < 10"
  shows "isDigit (48 + of_nat d)" and "uint (48 + of_nat d :: jschar) - 48 = int d"
proof -
  from assms have "d = 0 \<or> d = 1 \<or> d = 2 \<or> d = 3 \<or> d = 4 \<or> d = 5 \<or> d = 6 \<or> d = 7 \<or> d = 8 \<or> d = 9"
    by arith
  then show "isDigit (48 + of_nat d)" and "uint (48 + of_nat d :: jschar) - 48 = int d"
    by (auto simp: isDigit_def)
qed

lemma decimal_not_Nil: "decimal n \<noteq> []"
  by (subst decimal.simps) simp

lemma decimal_digits: "list_all isDigit (decimal n)"
proof (induction n rule: decimal.induct)
  case (1 n)
  show ?case
  proof (cases "n < 10")
    case True
    then show ?thesis by (subst decimal.simps) (simp add: digit_char)
  next
    case False
    then show ?thesis using 1 by (subst decimal.simps) (simp add: digit_char)
  qed
qed

lemma digits_value_snoc: "digits_value (ds @ [c]) = 10 * digits_value ds + (uint c - 48)"
  by (simp add: digits_value_def)

lemma digits_value_decimal: "digits_value (decimal n) = int n"
proof (induction n rule: decimal.induct)
  case (1 n)
  show ?case
  proof (cases "n < 10")
    case True
    then show ?thesis by (subst decimal.simps) (simp add: digits_value_def digit_char)
  next
    case False
    have "int (10 * (n div 10) + n mod 10) = 10 * int (n div 10) + int (n mod 10)"
      by (simp only: of_nat_add of_nat_mult of_nat_numeral)
    then have "10 * int (n div 10) + int (n mod 10) = int n" by simp
    with False show ?thesis using 1
      by (subst decimal.simps) (simp add: digits_value_snoc digit_char)
  qed
qed

lemma isDigit_not_space: "isDigit c \<Longrightarrow> \<not> isWhiteSpace c"
  by (auto simp: isDigit_def isWhiteSpace_def word_le_nat_alt)

lemma isDigit_not_colon: "isDigit c \<Longrightarrow> c \<noteq> 0x3A"
  by (auto simp: isDigit_def)

lemma trimEnd_Nil: "trimEnd [] = []"
  by (simp add: trimEnd_def)

lemma trim_id:
  assumes "s \<noteq> []" and "\<not> isWhiteSpace (hd s)" and "\<not> isWhiteSpace (last s)"
  shows "trim s = s"
  using trim_append [OF assms, of "[]"] by (simp add: trimEnd_Nil)

lemma trim_all_space:
  assumes "\<forall>c \<in> set s. isWhiteSpace c"
  shows "trim s = []"
proof -
  have "dropWhile isWhiteSpace s = []" using assms by simp
  then show ?thesis unfolding trim_def trimStart_def by (simp only: trimEnd_Nil)
qed

lemma trimEnd_prefix: "\<exists>rest. m = trimEnd m @ rest"
proof -
  have "trimEnd m @ rev (takeWhile isWhiteSpace (rev m))
      = rev (takeWhile isWhiteSpace (rev m) @ dropWhile isWhiteSpace (rev m))"
    by (simp only: trimEnd_def rev_append)
  also have "\<dots> = m" by simp
  finally have "m = trimEnd m @ rev (takeWhile isWhiteSpace (rev m))" by (rule sym)
  then show ?thesis ..
qed

lemma trim_decimal: "trim (decimal n) = decimal n"
proof (rule trim_id)
  show ne: "decimal n \<noteq> []" by (rule decimal_not_Nil)
  have all: "\<forall>c \<in> set (decimal n). isDigit c"
    using decimal_digits [of n] by (simp add: list_all_iff)
  from ne all show "\<not> isWhiteSpace (hd (decimal n))" by (auto intro!: isDigit_not_space)
  from ne all show "\<not> isWhiteSpace (last (decimal n))" by (auto intro!: isDigit_not_space)
qed

lemma digits_not_prefixed:
  assumes "list_all isDigit t" and "\<not> isDigit c"
  shows "\<not> startsWith t [a, c]"
proof
  assume "startsWith t [a, c]"
  then obtain r where "t = [a, c] @ r" unfolding startsWith_iff ..
  with assms show False by simp
qed

lemma unsigned_decimal_digits:
  assumes "t \<noteq> []" and "list_all isDigit t"
  shows "unsigned_decimal t = Some (round_to_double (of_int (digits_value t)))"
proof -
  have all: "\<forall>c \<in> set t. isDigit c" using assms(2) by (simp add: list_all_iff)
  have "\<not> isDigit 0x49" by (simp add: isDigit_def)
  with all have "0x49 \<notin> set t" by auto
  then have inf: "t \<noteq> ascii ''Infinity''" by (auto simp: ascii_def)
  have tw: "takeWhile isDigit t = t" and dw: "dropWhile isDigit t = []"
    using all by simp_all
  have "digits_value [] = 0" by (simp add: digits_value_def)
  then show ?thesis
    using assms(1) inf by (simp add: unsigned_decimal_def Let_def tw dw exponent_part_def)
qed

lemma Number_digits:
  assumes "t \<noteq> []" and "list_all isDigit t"
  shows "Number t = Some (round_to_double (of_int (digits_value t)))"
proof -
  have all: "\<forall>c \<in> set t. isDigit c" using assms(2) by (simp add: list_all_iff)
  then have "\<not> isWhiteSpace (hd t)" "\<not> isWhiteSpace (last t)"
    using assms(1) by (auto intro!: isDigit_not_space)
  with assms(1) have tr: "trim t = t" by (intro trim_id)
  have nd: "\<not> isDigit 0x78" "\<not> isDigit 0x58" "\<not> isDigit 0x6F" "\<not> isDigit 0x4F"
      "\<not> isDigit 0x62" "\<not> isDigit 0x42" "\<not> isDigit 0x2B" "\<not> isDigit 0x2D"
    by (simp_all add: isDigit_def)
  have pre: "\<not> startsWith t (ascii ''0x'')" "\<not> startsWith t (ascii ''0X'')"
      "\<not> startsWith t (ascii ''0o'')" "\<not> startsWith t (ascii ''0O'')"
      "\<not> startsWith t (ascii ''0b'')" "\<not> startsWith t (ascii ''0B'')"
    using digits_not_prefixed [OF assms(2)] nd by (simp_all add: ascii_def)
  have "isDigit (hd t)" using all assms(1) by simp
  with nd have sg: "hd t \<noteq> 0x2B" "hd t \<noteq> 0x2D" by auto
  show ?thesis
    using assms(1) by (simp add: Number_def Let_def tr pre sg unsigned_decimal_digits [OF assms])
qed

lemma Number_decimal: "Number (decimal n) = Some (round_to_double (of_nat n))"
  using Number_digits [OF decimal_not_Nil decimal_digits, of n]
  by (simp add: digits_value_decimal)

lemma trim_number_to_string: "trim (number_to_string i) = number_to_string i"
proof (cases "i < 0")
  case False
  then show ?thesis by (simp add: number_to_string_def trim_decimal)
next
  case True
  let ?s = "0x2D # decimal (nat (- i))"
  have all: "\<forall>c \<in> set (decimal (nat (- i))). isDigit c"
    using decimal_digits [of "nat (- i)"] by (simp add: list_all_iff)
  have "\<not> isWhiteSpace (last ?s)"
    using all decimal_not_Nil [of "nat (- i)"] by (auto intro!: isDigit_not_space)
  then have "trim ?s = ?s"
    by (intro trim_id) (simp_all add: isWhiteSpace_def)
  with True show ?thesis by (simp add: number_to_string_def ascii_def)
qed

text \<open>\<open>Number\<close> reads the decimal text of an integer as the double nearest to it,
  which is the integer itself up to 2^53 in magnitude.\<close>

lemma Number_number_to_string: "Number (number_to_string i) = Some (round_to_double (of_int i))"
proof (cases "i < 0")
  case False
  then show ?thesis by (simp add: number_to_string_def Number_decimal)
next
  case True
  let ?d = "decimal (nat (- i))"
  let ?s = "0x2D # ?d"
  have s: "number_to_string i = ?s" using True by (simp add: number_to_string_def ascii_def)
  have t: "trim ?s = ?s" using trim_number_to_string [of i] by (simp add: s)
  have u: "unsigned_decimal ?d = Some (round_to_double (of_int (- i)))"
    using unsigned_decimal_digits [OF decimal_not_Nil decimal_digits, of "nat (- i)"] True
    by (simp add: digits_value_decimal)
  have "Number ?s = map_option negate (unsigned_decimal ?d)"
    by (simp add: Number_def Let_def t startsWith_def ascii_def)
  also have "\<dots> = Some (round_to_double (- of_int (- i)))"
    unfolding u round_to_double_minus by simp
  finally show ?thesis by (simp add: s)
qed

lemma Number_safe_integer:
  "\<bar>i\<bar> \<le> 2 ^ 53 \<Longrightarrow> Number (number_to_string i) = Some (Finite (of_int i))"
  by (simp add: Number_number_to_string round_to_double_exact)

section \<open>Properties of the blame parser\<close>

lemma hd_split: "split sep s \<noteq> [] \<and> hd (split sep s) = takeWhile (\<lambda>c. c \<noteq> sep) s"
  by (induction s) auto

lemma key_lengths:
  "length (ascii ''author '') = 7" "length (ascii ''author-time '') = 12"
  "length (ascii ''summary '') = 8"
  by (simp_all add: ascii_def)

lemma parse_line_commit: "commit (parse_line i l) = commit i"
  by (simp add: parse_line_def split: option.splits)

lemma parse_line_author:
  "author (parse_line i l) =
     (if startsWith l (ascii ''author '') then Some (trim (drop 7 l)) else author i)"
  by (simp add: parse_line_def key_lengths split: option.splits)

lemma time_not_author: "startsWith l (ascii ''author-time '') \<Longrightarrow> \<not> startsWith l (ascii ''author '')"
  by (auto simp: startsWith_iff ascii_def)

lemma summary_not_author:
  assumes "startsWith l (ascii ''summary '')"
  shows "\<not> startsWith l (ascii ''author '')" and "\<not> startsWith l (ascii ''author-time '')"
  using assms by (auto simp: startsWith_iff ascii_def)

lemma parse_line_authorTime:
  "authorTime (parse_line i l) =
     (if startsWith l (ascii ''author-time '') then
        (case Number (trim (drop 12 l)) of None \<Rightarrow> authorTime i | Some n \<Rightarrow> Some n)
      else authorTime i)"
  using time_not_author [of l]
  by (simp add: parse_line_def key_lengths split: option.splits)

lemma parse_line_summary:
  "summary (parse_line i l) =
     (if startsWith l (ascii ''summary '') then Some (trim (drop 8 l)) else summary i)"
  using summary_not_author [of l]
  by (simp add: parse_line_def key_lengths split: option.splits)

lemma foldl_parse_commit: "commit (foldl parse_line i ls) = commit i"
  by (induction ls arbitrary: i) (simp_all add: parse_line_commit)

text \<open>When every line with the prefix \<open>author\<close> and a space is the same line, the
  author after the loop is that line's trimmed value, or the initial one when the
  line does not occur; likewise for the two other keys.\<close>

lemma foldl_parse_author:
  assumes "\<forall>l \<in> set ls. startsWith l (ascii ''author '') \<longrightarrow> l = ascii ''author '' @ X"
  shows "author (foldl parse_line i ls) =
           (if ascii ''author '' @ X \<in> set ls then Some (trim X) else author i)"
  using assms
proof (induction ls arbitrary: i)
  case Nil
  then show ?case by simp
next
  case (Cons l ls)
  let ?L = "ascii ''author '' @ X"
  have here: "author (parse_line i l) = (if l = ?L then Some (trim X) else author i)"
  proof (cases "l = ?L")
    case True
    then show ?thesis by (simp add: parse_line_author startsWith_append key_lengths)
  next
    case False
    with Cons.prems have "\<not> startsWith l (ascii ''author '')" by auto
    with False show ?thesis by (simp add: parse_line_author)
  qed
  have "author (foldl parse_line (parse_line i l) ls) =
          (if ?L \<in> set ls then Some (trim X) else author (parse_line i l))"
    using Cons.prems by (intro Cons.IH) simp
  then show ?case unfolding here by (cases "?L \<in> set ls") simp_all
qed

lemma foldl_parse_authorTime:
  assumes "\<forall>l \<in> set ls. startsWith l (ascii ''author-time '') \<longrightarrow> l = ascii ''author-time '' @ number_to_string T"
  shows "authorTime (foldl parse_line i ls) =
           (if ascii ''author-time '' @ number_to_string T \<in> set ls
            then Some (round_to_double (of_int T)) else authorTime i)"
  using assms
proof (induction ls arbitrary: i)
  case Nil
  then show ?case by simp
next
  case (Cons l ls)
  let ?L = "ascii ''author-time '' @ number_to_string T"
  have n: "Number (trim (number_to_string T)) = Some (round_to_double (of_int T))"
    by (simp add: trim_number_to_string Number_number_to_string)
  have here: "authorTime (parse_line i l) = (if l = ?L then Some (round_to_double (of_int T)) else authorTime i)"
  proof (cases "l = ?L")
    case True
    then show ?thesis by (simp add: parse_line_authorTime startsWith_append key_lengths n)
  next
    case False
    with Cons.prems have "\<not> startsWith l (ascii ''author-time '')" by auto
    with False show ?thesis by (simp add: parse_line_authorTime)
  qed
  have "authorTime (foldl parse_line (parse_line i l) ls) =
          (if ?L \<in> set ls then Some (round_to_double (of_int T)) else authorTime (parse_line i l))"
    using Cons.prems by (intro Cons.IH) simp
  then show ?case unfolding here by (cases "?L \<in> set ls") simp_all
qed

lemma foldl_parse_summary:
  assumes "\<forall>l \<in> set ls. startsWith l (ascii ''summary '') \<longrightarrow> l = ascii ''summary '' @ S"
  shows "summary (foldl parse_line i ls) =
           (if ascii ''summary '' @ S \<in> set ls then Some (trim S) else summary i)"
  using assms
proof (induction ls arbitrary: i)
  case Nil
  then show ?case by simp
next
  case (Cons l ls)
  let ?L = "ascii ''summary '' @ S"
  have here: "summary (parse_line i l) = (if l = ?L then Some (trim S) else summary i)"
  proof (cases "l = ?L")
    case True
    then show ?thesis by (simp add: parse_line_summary startsWith_append key_lengths)
  next
    case False
    with Cons.prems have "\<not> startsWith l (ascii ''summary '')" by auto
    with False show ?thesis by (simp add: parse_line_summary)
  qed
  have "summary (foldl parse_line (parse_line i l) ls) =
          (if ?L \<in> set ls then Some (trim S) else summary (parse_line i l))"
    using Cons.prems by (intro Cons.IH) simp
  then show ?case unfolding here by (cases "?L \<in> set ls") simp_all
qed

lemma parse_lines_general:
  assumes "c \<noteq> []" and "\<forall>ch \<in> set c. \<not> isWhiteSpace ch"
      and "tail = [] \<or> hd tail = 0x20" and "0x0A \<notin> set tail"
      and "\<forall>l \<in> set rest. 0x0A \<notin> set l"
      and "ascii ''author '' @ X \<in> set rest"
      and "ascii ''author-time '' @ number_to_string T \<in> set rest"
      and "ascii ''summary '' @ S \<in> set rest"
      and "\<forall>l \<in> set rest. startsWith l (ascii ''author '') \<longrightarrow> l = ascii ''author '' @ X"
      and "\<forall>l \<in> set rest. startsWith l (ascii ''author-time '')
             \<longrightarrow> l = ascii ''author-time '' @ number_to_string T"
      and "\<forall>l \<in> set rest. startsWith l (ascii ''summary '') \<longrightarrow> l = ascii ''summary '' @ S"
  shows "parseBlamePorcelain (join [0x0A] ((c @ tail) # rest))
           = Some \<lparr>commit = c, author = Some (trim X),
                    authorTime = Some (round_to_double (of_int T)), summary = Some (trim S)\<rparr>"
proof -
  let ?first = "c @ tail"
  let ?i0 = "\<lparr>commit = c, author = None, authorTime = None, summary = None\<rparr>"
  have nl: "isWhiteSpace 0x0A" and sp: "isWhiteSpace 0x20" by (simp_all add: isWhiteSpace_def)
  have c_nl: "0x0A \<notin> set c" and c_sp: "\<forall>x \<in> set c. x \<noteq> 0x20"
    using assms(2) nl sp by auto
  have "\<forall>l \<in> set (?first # rest). 0x0A \<notin> set l"
    using assms(4,5) c_nl by simp
  then have lines: "split 0x0A (join [0x0A] (?first # rest)) = ?first # rest"
    by (intro split_join) simp_all
  have first: "trim ?first = c @ trimEnd tail"
    using assms(1,2) by (intro trim_append) simp_all
  obtain t' where t': "tail = trimEnd tail @ t'" using trimEnd_prefix by blast
  have "trimEnd tail = [] \<or> hd (trimEnd tail) = 0x20"
  proof (cases "trimEnd tail = []")
    case False
    with t' have "hd tail = hd (trimEnd tail)" by (metis hd_append2)
    moreover from False t' have "tail \<noteq> []" by auto
    ultimately show ?thesis using assms(3) by simp
  qed simp
  then have "takeWhile (\<lambda>ch. ch \<noteq> 0x20) (c @ trimEnd tail) = c"
  proof
    assume "trimEnd tail = []"
    then show ?thesis using c_sp by simp
  next
    assume h: "hd (trimEnd tail) = 0x20"
    show ?thesis
    proof (cases "trimEnd tail")
      case Nil
      then show ?thesis using c_sp by simp
    next
      case (Cons a as)
      with h have "a = 0x20" by simp
      with Cons c_sp show ?thesis by (simp add: takeWhile_tail)
    qed
  qed
  then obtain ws where tok: "split 0x20 (c @ trimEnd tail) = c # ws"
    using hd_split [of "0x20" "c @ trimEnd tail"] by (cases "split 0x20 (c @ trimEnd tail)") auto
  let ?r = "foldl parse_line (parse_line ?i0 ?first) rest"
  have parsed: "parseBlamePorcelain (join [0x0A] (?first # rest)) = Some ?r"
    using assms(1) by (simp add: parseBlamePorcelain_def Let_def lines first tok)
  have "commit ?r = c"
    by (simp add: foldl_parse_commit parse_line_commit)
  moreover have "author ?r = Some (trim X)"
    using foldl_parse_author [OF assms(9)] assms(6) by simp
  moreover have "authorTime ?r = Some (round_to_double (of_int T))"
    using foldl_parse_authorTime [OF assms(10)] assms(7) by simp
  moreover have "summary ?r = Some (trim S)"
    using foldl_parse_summary [OF assms(11)] assms(8) by simp
  ultimately have "?r = \<lparr>commit = c, author = Some (trim X),
      authorTime = Some (round_to_double (of_int T)), summary = Some (trim S)\<rparr>"
    by (intro BlameInfo.equality) simp_all
  with parsed have A: "parseBlamePorcelain (join [0x0A] ((c @ tail) # rest))
           = Some \<lparr>commit = c, author = Some (trim X),
                    authorTime = Some (round_to_double (of_int T)), summary = Some (trim S)\<rparr>"
    by simp
  from A show ?thesis .
qed

lemma parse_blank:
  assumes ws: "\<forall>ch \<in> set p. isWhiteSpace ch"
  shows "parseBlamePorcelain p = None"
proof -
  obtain l0 ls where sp: "split 0x0A p = l0 # ls" and l0: "l0 = takeWhile (\<lambda>ch. ch \<noteq> 0x0A) p"
    using hd_split [of "0x0A" p] by (cases "split 0x0A p") auto
  have "\<forall>ch \<in> set l0. isWhiteSpace ch"
    using ws unfolding l0 by (auto dest: set_takeWhileD)
  then have "trim l0 = []" by (rule trim_all_space)
  then show ?thesis by (simp add: parseBlamePorcelain_def Let_def sp)
qed

text \<open>
  C5, as the code has it.  Take a blame output whose first line begins with the
  commit token \<open>c\<close> (not empty, free of white space), followed by nothing or by a
  space and more text, and whose further lines \<open>rest\<close>, in any order and possibly
  among lines with other keys, contain the lines \<open>author X\<close>, \<open>author-time T\<close> (\<open>T\<close>
  an integer written in decimal) and \<open>summary S\<close>, these being the only lines with
  those keys.  Then the parser returns the record with commit \<open>c\<close>, author \<open>X\<close>
  and summary \<open>S\<close> with the white space at their ends removed, and as author
  time the double nearest to \<open>T\<close>, which is \<open>T\<close> itself when its magnitude is at
  most 2^53.  An input that consists of white space only, the empty input
  included, gives no record.
\<close>

theorem parse_well_formed:
  assumes "c \<noteq> []" and "\<forall>ch \<in> set c. \<not> isWhiteSpace ch"
      and "tail = [] \<or> hd tail = 0x20" and "0x0A \<notin> set tail"
      and "\<forall>l \<in> set rest. 0x0A \<notin> set l"
      and "ascii ''author '' @ X \<in> set rest"
      and "ascii ''author-time '' @ number_to_string T \<in> set rest"
      and "ascii ''summary '' @ S \<in> set rest"
      and "\<forall>l \<in> set rest. startsWith l (ascii ''author '') \<longrightarrow> l = ascii ''author '' @ X"
      and "\<forall>l \<in> set rest. startsWith l (ascii ''author-time '')
             \<longrightarrow> l = ascii ''author-time '' @ number_to_string T"
      and "\<forall>l \<in> set rest. startsWith l (ascii ''summary '') \<longrightarrow> l = ascii ''summary '' @ S"
  shows "parseBlamePorcelain (join [0x0A] ((c @ tail) # rest))
           = Some \<lparr>commit = c, author = Some (trim X),
                    authorTime = Some (round_to_double (of_int T)), summary = Some (trim S)\<rparr>
         \<and> (\<bar>T\<bar> \<le> 2 ^ 53 \<longrightarrow> round_to_double (of_int T) = Finite (of_int T))
         \<and> ((\<forall>ch \<in> set p. isWhiteSpace ch) \<longrightarrow> parseBlamePorcelain p = None)"
  using parse_lines_general [OF assms] round_to_double_exact [of T] parse_blank [of p]
  by blast

lemma parse_example_number: "number_to_string 1700000000 = ascii ''1700000000''"
  by (simp add: number_to_string_def decimal.simps ascii_def)

lemma parse_example_trims:
  "trim (ascii ''Ann Lee'') = ascii ''Ann Lee''" "trim (ascii ''  fix bug '') = ascii ''fix bug''"
  by code_simp+

theorem parse_well_formed_witness:
  "parseBlamePorcelain
     (join [0x0A] [ascii ''abc123 1 1 1'', ascii ''summary   fix bug '', ascii ''author-mail <ann@example.com>'',
        ascii ''author-time 1700000000'', ascii ''filename a.ts'', ascii ''author Ann Lee'', []])
     = Some \<lparr>commit = ascii ''abc123'', author = Some (ascii ''Ann Lee''),
              authorTime = Some (Finite 1700000000), summary = Some (ascii ''fix bug'')\<rparr>
   \<and> parseBlamePorcelain [0x20, 0x0A, 0x09] = None"
proof -
  let ?rest = "[ascii ''summary   fix bug '', ascii ''author-mail <ann@example.com>'',
        ascii ''author-time 1700000000'', ascii ''filename a.ts'', ascii ''author Ann Lee'', []]"
  have a: "ascii ''author '' @ ascii ''Ann Lee'' = ascii ''author Ann Lee''"
    and n: "ascii ''author-time '' @ number_to_string 1700000000 = ascii ''author-time 1700000000''"
    and s: "ascii ''summary '' @ ascii ''  fix bug '' = ascii ''summary   fix bug ''"
    and f: "ascii ''abc123'' @ ascii '' 1 1 1'' = ascii ''abc123 1 1 1''"
    unfolding parse_example_number by (simp_all add: ascii_def)
  have h1: "ascii ''abc123'' \<noteq> []" and h2: "\<forall>ch \<in> set (ascii ''abc123''). \<not> isWhiteSpace ch"
    and h3: "ascii '' 1 1 1'' = [] \<or> hd (ascii '' 1 1 1'') = 0x20"
    and h4: "0x0A \<notin> set (ascii '' 1 1 1'')"
    by (simp_all add: ascii_def isWhiteSpace_def)
  have h5: "\<forall>l \<in> set ?rest. 0x0A \<notin> set l"
    by (simp add: ascii_def)
  have h9: "\<forall>l \<in> set ?rest. startsWith l (ascii ''author '') \<longrightarrow> l = ascii ''author '' @ ascii ''Ann Lee''"
    unfolding a by (simp add: startsWith_def ascii_def)
  have h10: "\<forall>l \<in> set ?rest. startsWith l (ascii ''author-time '')
             \<longrightarrow> l = ascii ''author-time '' @ number_to_string 1700000000"
    unfolding n by (simp add: startsWith_def ascii_def)
  have h11: "\<forall>l \<in> set ?rest. startsWith l (ascii ''summary '') \<longrightarrow> l = ascii ''summary '' @ ascii ''  fix bug ''"
    unfolding s by (simp add: startsWith_def ascii_def)
  have h6: "ascii ''author '' @ ascii ''Ann Lee'' \<in> set ?rest" unfolding a by simp
  have h7: "ascii ''author-time '' @ number_to_string 1700000000 \<in> set ?rest" unfolding n by simp
  have h8: "ascii ''summary '' @ ascii ''  fix bug '' \<in> set ?rest" unfolding s by simp
  have h14: "\<bar>1700000000 :: int\<bar> \<le> 2 ^ 53" by simp
  have ws: "\<forall>ch \<in> set [0x20, 0x0A, 0x09]. isWhiteSpace ch" by (simp add: isWhiteSpace_def)
  from parse_well_formed [OF h1 h2 h3 h4 h5 h6 h7 h8 h9 h10 h11, of "[0x20, 0x0A, 0x09]"] ws h14
  show ?thesis unfolding f parse_example_trims by simp
qed

text \<open>
  C5, counterexample to the claim as stated.  On the well-formed output whose
  summary line is the key, a space and the text \<open>S\<close> = "  fix bug" (a commit
  subject that begins with two blanks), the record's summary is "fix bug": the
  parser trims the value, so the summary is not \<open>S\<close>.
\<close>

theorem parse_trims_padded_summary:
  "parseBlamePorcelain
     (join [0x0A] [ascii ''abc123 1 1 1'', ascii ''author Ann Lee'', ascii ''author-time 1700000000'',
        ascii ''summary '' @ ascii ''  fix bug''])
     = Some \<lparr>commit = ascii ''abc123'', author = Some (ascii ''Ann Lee''),
              authorTime = Some (Finite 1700000000), summary = Some (ascii ''fix bug'')\<rparr>
   \<and> ascii ''fix bug'' \<noteq> ascii ''  fix bug''"
proof -
  let ?rest = "[ascii ''author Ann Lee'', ascii ''author-time 1700000000'', ascii ''summary '' @ ascii ''  fix bug'']"
  have t: "trim (ascii ''  fix bug'') = ascii ''fix bug''" by code_simp
  have a: "ascii ''author '' @ ascii ''Ann Lee'' = ascii ''author Ann Lee''"
    and n: "ascii ''author-time '' @ number_to_string 1700000000 = ascii ''author-time 1700000000''"
    and f: "ascii ''abc123'' @ ascii '' 1 1 1'' = ascii ''abc123 1 1 1''"
    unfolding parse_example_number by (simp_all add: ascii_def)
  have h1: "ascii ''abc123'' \<noteq> []" and h2: "\<forall>ch \<in> set (ascii ''abc123''). \<not> isWhiteSpace ch"
    and h3: "ascii '' 1 1 1'' = [] \<or> hd (ascii '' 1 1 1'') = 0x20"
    and h4: "0x0A \<notin> set (ascii '' 1 1 1'')"
    by (simp_all add: ascii_def isWhiteSpace_def)
  have h5: "\<forall>l \<in> set ?rest. 0x0A \<notin> set l"
    by (simp add: ascii_def)
  have h9: "\<forall>l \<in> set ?rest. startsWith l (ascii ''author '') \<longrightarrow> l = ascii ''author '' @ ascii ''Ann Lee''"
    unfolding a by (simp add: startsWith_def ascii_def)
  have h10: "\<forall>l \<in> set ?rest. startsWith l (ascii ''author-time '')
             \<longrightarrow> l = ascii ''author-time '' @ number_to_string 1700000000"
    unfolding n by (simp add: startsWith_def ascii_def)
  have h11: "\<forall>l \<in> set ?rest. startsWith l (ascii ''summary '') \<longrightarrow> l = ascii ''summary '' @ ascii ''  fix bug''"
    by (simp add: startsWith_def ascii_def)
  have h6: "ascii ''author '' @ ascii ''Ann Lee'' \<in> set ?rest" unfolding a by simp
  have h7: "ascii ''author-time '' @ number_to_string 1700000000 \<in> set ?rest" unfolding n by simp
  have h8: "ascii ''summary '' @ ascii ''  fix bug'' \<in> set ?rest" by simp
  have r: "round_to_double (of_int 1700000000) = Finite 1700000000"
    using round_to_double_exact [of 1700000000] by simp
  have ne: "ascii ''fix bug'' \<noteq> ascii ''  fix bug''" by (simp add: ascii_def)
  from parse_lines_general [OF h1 h2 h3 h4 h5 h6 h7 h8 h9 h10 h11] r ne
  show ?thesis unfolding f parse_example_trims t by simp
qed

text \<open>Above 2^53 the decimal text of an integer is read as the nearest double.\<close>

lemma number_rounds_above_2_53:
  "Number (ascii ''9007199254740993'') = Some (Finite 9007199254740992)"
  by code_simp

end
